theory Spec2Isabelle
  imports Main "HOL-Library.Word" "HOL-Library.Multiset" "HOL-Library.Signed_Division"
begin

unbundle bit_operations_syntax

section \<open>Data model (types.go, src/unnamed/part_002)\<close>

text \<open>
  A Go \<^verbatim>\<open>float64\<close> is kept as its 64 bits: the program never computes with
  prices or volumes, it only parses, stores and returns them. \<^verbatim>\<open>int64\<close> is a
  64-bit word read as a signed number. An instant of \<^verbatim>\<open>time.Time\<close> is an integer
  count of milliseconds since the Unix epoch; the zero value is \<open>0\<close>.
\<close>

type_synonym float64 = "64 word"
type_synonym int64 = "64 word"
type_synonym time = int

record Candle =
  Timestamp :: int64
  Open :: float64
  High :: float64
  Low :: float64
  Close :: float64
  Volume :: float64

record CacheEntry =
  Symbol :: string
  Candles :: "Candle list"
  LastUpdate :: time

section \<open>Errors\<close>

text \<open>
  Every \<^verbatim>\<open>fmt.Errorf\<close> of the clients is a constructor. \<open>RetriesExhausted n e\<close> is
  \<^verbatim>\<open>fmt.Errorf("failed after %d retries: %w", maxRetries, lastErr)\<close>: it wraps
  \<open>lastErr\<close>, which is \<open>None\<close> for Go's \<^verbatim>\<open>nil\<close>. A \<open>decode_error\<close> is an error of
  \<^verbatim>\<open>json.Unmarshal\<close>: the body is not JSON; a value has the wrong JSON type for its field
  (\<^verbatim>\<open>UnmarshalTypeError\<close>, with the kind of the value); or one of the two errors of a field
  tagged \<^verbatim>\<open>,string\<close>, "invalid use of ,string struct tag, trying to unmarshal unquoted
  value" and "... trying to unmarshal \<open>q\<close>" for a string \<open>q\<close> that holds no number.
\<close>

datatype decode_error =
    SyntaxError
  | TypeMismatch string
  | UnquotedValue
  | BadQuotedValue string

datatype error =
    RequestFailed string
  | ApiStatus int string
  | ReadFailed string
  | ParseFailed decode_error
  | RetriesExhausted int "error option"

section \<open>Retry wrapper (src/hyperliquid.go, FetchCandlesWithRetry)\<close>

text \<open>
  The effects of one call are returned as a trace: \<open>Attempt k\<close> is the call of
  \<^verbatim>\<open>c.FetchCandles\<close> made in iteration \<open>k\<close>, \<open>Sleep d\<close> is \<^verbatim>\<open>time.Sleep(d)\<close> with
  \<open>d\<close> a \<^verbatim>\<open>time.Duration\<close> (signed 64-bit nanoseconds).
\<close>

datatype event = Attempt nat | Sleep int64

definition Second :: int64 where
  "Second = 1000000000"

text \<open>
  \<^verbatim>\<open>backoff := time.Duration(1<<uint(attempt)) * time.Second\<close>. The shift is done at
  type \<^verbatim>\<open>time.Duration\<close>; a shift count of 64 or more gives 0 and the product wraps.
\<close>

definition backoff :: "int \<Rightarrow> int64" where
  "backoff attempt = push_bit (nat attempt) (1 :: int64) * Second"

text \<open>
  The loop \<^verbatim>\<open>for attempt := 0; attempt < maxRetries; attempt++\<close>. The argument
  \<open>fetch k\<close> is what the \<open>k\<close>-th call of \<^verbatim>\<open>c.FetchCandles(symbol, interval, startTime,
  endTime)\<close> of this invocation returns (the calls are sequential, so the \<open>k\<close>-th call is
  the one of iteration \<open>k\<close>). \<^verbatim>\<open>attempt\<close> and \<^verbatim>\<open>maxRetries\<close> are Go \<^verbatim>\<open>int\<close>s; the
  counter stays below \<^verbatim>\<open>maxRetries\<close>, so it never wraps.
\<close>

function retry_loop ::
  "(nat \<Rightarrow> error + Candle list) \<Rightarrow> int \<Rightarrow> int \<Rightarrow> error option
    \<Rightarrow> (error + Candle list) \<times> event list" where
  "retry_loop fetch maxRetries attempt lastErr =
     (if attempt < maxRetries then
        (case fetch (nat attempt) of
           Inr candles \<Rightarrow> (Inr candles, [Attempt (nat attempt)])
         | Inl err \<Rightarrow>
             (let slept = (if attempt < maxRetries - 1 then [Sleep (backoff attempt)] else []);
                  rest = retry_loop fetch maxRetries (attempt + 1) (Some err)
              in (fst rest, Attempt (nat attempt) # slept @ snd rest)))
      else (Inl (RetriesExhausted maxRetries lastErr), []))"
  by pat_completeness auto
termination
  by (relation "measure (\<lambda>(fetch, maxRetries, attempt, lastErr). nat (maxRetries - attempt))") auto

definition FetchCandlesWithRetry ::
  "(nat \<Rightarrow> error + Candle list) \<Rightarrow> int \<Rightarrow> (error + Candle list) \<times> event list" where
  "FetchCandlesWithRetry fetch maxRetries = retry_loop fetch maxRetries 0 None"

definition attempts :: "event list \<Rightarrow> nat list" where
  "attempts tr = concat (map (\<lambda>e. case e of Attempt k \<Rightarrow> [k] | Sleep d \<Rightarrow> []) tr)"

definition sleeps :: "event list \<Rightarrow> int64 list" where
  "sleeps tr = concat (map (\<lambda>e. case e of Attempt k \<Rightarrow> [] | Sleep d \<Rightarrow> [d]) tr)"

section \<open>Snapshot cache (cache.go, src/unnamed/part_000)\<close>

text \<open>
  The cache as the refresh pipeline uses it. The pipeline never writes into a slice
  after handing it to the cache, so here a \<^verbatim>\<open>[]Candle\<close> is its contents; the section
  on shared storage below keeps slice headers and backing arrays apart. The mutex only
  serialises the methods: each method below is one atomic step.
\<close>

record Cache =
  data :: "string \<rightharpoonup> CacheEntry"
  symbols :: "string list"
  lastUpdate :: time
  symbolUpdate :: time

definition NewCache :: Cache where
  "NewCache = \<lparr>data = Map.empty, symbols = [], lastUpdate = 0, symbolUpdate = 0\<rparr>"

text \<open>
  \<^verbatim>\<open>time.Now()\<close> is read from an oracle: \<open>now k\<close> is the value of the \<open>k\<close>-th reading
  taken in the run, and \<open>clock\<close> counts the readings taken so far. \<open>writes\<close> is a ghost
  log of the cache mutations, in the order they happen.
\<close>

datatype cache_write = WroteSeries string "Candle list" | WroteSymbols "string list"

record world =
  cache :: Cache
  clock :: nat
  writes :: "cache_write list"

definition Set :: "(nat \<Rightarrow> time) \<Rightarrow> world \<Rightarrow> string \<Rightarrow> Candle list \<Rightarrow> world" where
  "Set now w symbol candles =
     (let entry = \<lparr>Symbol = symbol, Candles = candles, LastUpdate = now (clock w)\<rparr>;
          c = cache w
      in w\<lparr>cache := c\<lparr>data := (data c)(symbol \<mapsto> entry), lastUpdate := now (clock w + 1)\<rparr>,
            clock := clock w + 2,
            writes := writes w @ [WroteSeries symbol candles]\<rparr>)"

text \<open>The zero \<^verbatim>\<open>CacheEntry\<close>, which \<^verbatim>\<open>c.data[symbol]\<close> yields for a missing key.\<close>

definition zero_entry :: CacheEntry where
  "zero_entry = \<lparr>Symbol = [], Candles = [], LastUpdate = 0\<rparr>"

definition Get :: "Cache \<Rightarrow> string \<Rightarrow> CacheEntry \<times> bool" where
  "Get c symbol = (case data c symbol of None \<Rightarrow> (zero_entry, False) | Some entry \<Rightarrow> (entry, True))"

text \<open>
  \<^verbatim>\<open>for k, v := range c.data { result[k] = v }\<close>: Go leaves the iteration order of a map
  open, so the order \<open>keys\<close> in which the runtime yields the keys is an argument.
\<close>

definition GetAll :: "string list \<Rightarrow> Cache \<Rightarrow> (string \<rightharpoonup> CacheEntry)" where
  "GetAll keys c = fold (\<lambda>k result. result(k := data c k)) keys Map.empty"

definition SetSymbols :: "(nat \<Rightarrow> time) \<Rightarrow> world \<Rightarrow> string list \<Rightarrow> world" where
  "SetSymbols now w syms =
     w\<lparr>cache := (cache w)\<lparr>symbols := syms, symbolUpdate := now (clock w)\<rparr>,
       clock := clock w + 1,
       writes := writes w @ [WroteSymbols syms]\<rparr>"

definition GetSymbols :: "Cache \<Rightarrow> string list" where
  "GetSymbols c = take (length (symbols c)) (symbols c)"

definition GetLastUpdate :: "Cache \<Rightarrow> time" where
  "GetLastUpdate c = lastUpdate c"

definition GetSymbolUpdate :: "Cache \<Rightarrow> time" where
  "GetSymbolUpdate c = symbolUpdate c"

definition new_world :: world where
  "new_world = \<lparr>cache = NewCache, clock = 0, writes = []\<rparr>"

section \<open>Universe client (hydromancer.go, src/unnamed/part_003, FetchPerpetualSymbols)\<close>

text \<open>
  What one HTTP exchange can come to, by the check of the client that it reaches:
  \<^verbatim>\<open>httpClient.Do\<close> fails; the status is not 200 (with the body text); \<^verbatim>\<open>io.ReadAll\<close>
  fails; \<^verbatim>\<open>json.Unmarshal\<close> rejects the body; or the body is delivered. Building the
  request cannot fail: the body is a map of constants and the URL is a constant.
\<close>

datatype 'a exchange =
    DoFailed string
  | BadStatus int string
  | ReadError string
  | Undecodable decode_error
  | Delivered 'a

record universe_item =
  Name :: string
  IsDelisted :: bool

record MetaResponse =
  Universe :: "universe_item list"

text \<open>
  The loop \<^verbatim>\<open>for _, item := range response.Universe\<close> with its \<^verbatim>\<open>append\<close>, the list
  \<open>acc\<close> being \<^verbatim>\<open>symbols\<close>.
\<close>

fun collect_names :: "universe_item list \<Rightarrow> string list \<Rightarrow> string list" where
  "collect_names [] acc = acc"
| "collect_names (item # rest) acc =
     (if Name item \<noteq> [] \<and> \<not> IsDelisted item
      then collect_names rest (acc @ [Name item])
      else collect_names rest acc)"

definition FetchPerpetualSymbols :: "MetaResponse exchange \<Rightarrow> error + string list" where
  "FetchPerpetualSymbols x =
     (case x of
        DoFailed m \<Rightarrow> Inl (RequestFailed m)
      | BadStatus code body \<Rightarrow> Inl (ApiStatus code body)
      | ReadError m \<Rightarrow> Inl (ReadFailed m)
      | Undecodable e \<Rightarrow> Inl (ParseFailed e)
      | Delivered response \<Rightarrow> Inr (collect_names (Universe response) []))"

section \<open>Identifier refresh (src/symbols.go)\<close>

text \<open>
  Of the actor's fields only \<^verbatim>\<open>cachedSymbols\<close> is state of its own; \<^verbatim>\<open>cache\<close> is the
  shared cache of the \<open>world\<close>, and the client and the interval are fixed.
\<close>

record SymbolFetcherActor =
  cachedSymbols :: "string list"

definition NewSymbolFetcherActor :: SymbolFetcherActor where
  "NewSymbolFetcherActor = \<lparr>cachedSymbols = []\<rparr>"

definition fetchSymbols ::
  "(nat \<Rightarrow> time) \<Rightarrow> MetaResponse exchange \<Rightarrow> SymbolFetcherActor \<times> world
     \<Rightarrow> SymbolFetcherActor \<times> world" where
  "fetchSymbols now x st =
     (let a = fst st; w = snd st in
      case FetchPerpetualSymbols x of
        Inl err \<Rightarrow>
          (if length (cachedSymbols a) > 0
           then (a, SetSymbols now w (cachedSymbols a))
           else (a, w))
      | Inr syms \<Rightarrow>
          (if length syms = 0 then (a, w)
           else (a\<lparr>cachedSymbols := syms\<rparr>, SetSymbols now w syms)))"

text \<open>
  A history of the process, as far as the cache's identifier list can see it: runs of
  the identifier refresh, each with the exchange it met, interleaved with the series
  writes of the data refresh. \<open>run\<close> replays a history from the state at process start.
\<close>

datatype step = Refresh "MetaResponse exchange" | SeriesWrite string "Candle list"

fun do_step :: "(nat \<Rightarrow> time) \<Rightarrow> SymbolFetcherActor \<times> world \<Rightarrow> step \<Rightarrow> SymbolFetcherActor \<times> world" where
  "do_step now st (Refresh x) = fetchSymbols now x st"
| "do_step now st (SeriesWrite symbol candles) = (fst st, Set now (snd st) symbol candles)"

definition run :: "(nat \<Rightarrow> time) \<Rightarrow> step list \<Rightarrow> SymbolFetcherActor \<times> world" where
  "run now steps = foldl (do_step now) (NewSymbolFetcherActor, new_world) steps"

text \<open>
  The non-empty universes that the refreshes of a history fetched, oldest first, and
  the identifier lists the history wrote into the cache.
\<close>

fun fetched_universes :: "step list \<Rightarrow> string list list" where
  "fetched_universes [] = []"
| "fetched_universes (Refresh x # rest) =
     (case FetchPerpetualSymbols x of
        Inr syms \<Rightarrow> (if syms \<noteq> [] then [syms] else []) @ fetched_universes rest
      | Inl err \<Rightarrow> fetched_universes rest)"
| "fetched_universes (SeriesWrite symbol candles # rest) = fetched_universes rest"

definition symbol_writes :: "cache_write list \<Rightarrow> string list list" where
  "symbol_writes log = concat (map (\<lambda>e. case e of WroteSymbols l \<Rightarrow> [l] | WroteSeries k v \<Rightarrow> []) log)"

text \<open>
  The invariant of every history: the cache's identifier list is the actor's fallback
  copy, and no identifier list written so far is empty.
\<close>

definition refresh_inv :: "SymbolFetcherActor \<times> world \<Rightarrow> bool" where
  "refresh_inv st \<longleftrightarrow>
     symbols (cache (snd st)) = cachedSymbols (fst st) \<and>
     [] \<notin> set (symbol_writes (writes (snd st)))"

section \<open>Batch refresh (worker.go, src/unnamed/part_001)\<close>

text \<open>
  The actor's configuration. \<^verbatim>\<open>cache\<close> is the cache of the \<open>world\<close>; \<^verbatim>\<open>refreshInterval\<close>
  is used by the scheduler only. \<^verbatim>\<open>candleDays\<close> and \<^verbatim>\<open>batchSize\<close> are Go \<^verbatim>\<open>int\<close>s, kept
  as unbounded integers: the arithmetic on them stays far below the word size for any
  list that fits in memory.
\<close>

record CandleFetcherActor =
  candleInterval :: string
  candleDays :: int
  batchSize :: int
  batchDelay :: int64

definition Millisecond :: int64 where
  "Millisecond = 1000000"

definition NewCandleFetcherActor :: "string \<Rightarrow> int \<Rightarrow> CandleFetcherActor" where
  "NewCandleFetcherActor interval days =
     \<lparr>candleInterval = interval, candleDays = days, batchSize = 10,
      batchDelay = 200 * Millisecond\<rparr>"

text \<open>
  \<^verbatim>\<open>t.AddDate(0, 0, days)\<close> on an instant in milliseconds, for a location without
  clock changes (a day is 24 hours), and \<^verbatim>\<open>t.UnixMilli()\<close> as an \<^verbatim>\<open>int64\<close>.
\<close>

definition AddDate_days :: "time \<Rightarrow> int \<Rightarrow> time" where
  "AddDate_days t days = t + days * 86400000"

definition UnixMilli :: "time \<Rightarrow> int64" where
  "UnixMilli t = word_of_int t"

text \<open>The \<^verbatim>\<open>result\<close> struct that a fetch goroutine sends on the channel.\<close>

record result =
  res_symbol :: string
  res_candles :: "Candle list"
  res_err :: "error option"

text \<open>
  The network, seen from one refresh cycle: \<open>net i sym interval startTime endTime k\<close> is
  what the \<open>k\<close>-th call of \<^verbatim>\<open>FetchCandles(sym, interval, startTime, endTime)\<close> returns in
  the goroutine launched for position \<open>i\<close> of the identifier list.
\<close>

type_synonym network =
  "nat \<Rightarrow> string \<Rightarrow> string \<Rightarrow> int64 \<Rightarrow> int64 \<Rightarrow> nat \<Rightarrow> error + Candle list"

text \<open>
  The goroutine \<^verbatim>\<open>go func(sym string) { ... results <- result{...} }(symbol)\<close>: the result
  it sends and the trace of its retry wrapper. On failure \<^verbatim>\<open>candles\<close> is \<^verbatim>\<open>nil\<close>.
\<close>

definition fetch_task ::
  "network \<Rightarrow> CandleFetcherActor \<Rightarrow> int64 \<Rightarrow> int64 \<Rightarrow> nat \<times> string \<Rightarrow> result \<times> event list" where
  "fetch_task net a startTime endTime launch =
     (let sym = snd launch;
          r = FetchCandlesWithRetry (net (fst launch) sym (candleInterval a) startTime endTime) 3
      in (case fst r of
            Inl e \<Rightarrow> \<lparr>res_symbol = sym, res_candles = [], res_err = Some e\<rparr>
          | Inr cs \<Rightarrow> \<lparr>res_symbol = sym, res_candles = cs, res_err = None\<rparr>,
          snd r))"

text \<open>
  The loop \<^verbatim>\<open>for i := 0; i < len(batch); i++ { res := <-results; ... }\<close> over the results in
  the order in which they arrive, with the running \<^verbatim>\<open>successCount\<close>.
\<close>

fun collect :: "(nat \<Rightarrow> time) \<Rightarrow> result list \<Rightarrow> world \<times> int \<Rightarrow> world \<times> int" where
  "collect now [] st = st"
| "collect now (res # rest) (w, successCount) =
     (if res_err res \<noteq> None
      then collect now rest (Set now w (res_symbol res) [], successCount)
      else collect now rest (Set now w (res_symbol res) (res_candles res), successCount + 1))"

text \<open>
  What a cycle leaves behind besides the cache: how it ended, and its trace. A \<open>Batch\<close>
  event carries the two numbers of the log line \<^verbatim>\<open>Fetching batch %d/%d\<close> and, for every
  goroutine launched, in launch order, its identifier and the trace of its retries;
  \<open>Paused d\<close> is the \<^verbatim>\<open>time.Sleep(a.batchDelay)\<close> between two batches.
\<close>

datatype panic = DivideByZero | SliceBounds

datatype cycle_status = Skipped | Completed int | Panicked panic

datatype cycle_event = Batch int int "(string \<times> event list) list" | Paused int64

text \<open>
  The loop \<^verbatim>\<open>for batchIdx := 0; batchIdx < len(symbols); batchIdx += a.batchSize\<close>. The
  goroutines of a batch complete in an order the program does not control: \<open>arrival n rs\<close>
  is the order in which the results \<open>rs\<close> of batch number \<open>n\<close> come out of the channel.
  \<^verbatim>\<open>symbols[batchIdx:end]\<close> panics when \<^verbatim>\<open>end < batchIdx\<close> (a negative batch size), and
  \<^verbatim>\<open>batchIdx / a.batchSize\<close> panics for a batch size of zero.
\<close>

function batch_loop ::
  "(nat \<Rightarrow> time) \<Rightarrow> network \<Rightarrow> (nat \<Rightarrow> result list \<Rightarrow> result list) \<Rightarrow> CandleFetcherActor
     \<Rightarrow> string list \<Rightarrow> int64 \<Rightarrow> int64 \<Rightarrow> int \<Rightarrow> int
     \<Rightarrow> world \<times> int \<times> cycle_event list \<Rightarrow> world \<times> cycle_status \<times> cycle_event list" where
  "batch_loop now net arrival a syms startTime endTime totalBatches batchIdx (w, successCount, tr) =
     (if batchIdx < int (length syms) then
        (let end0 = batchIdx + batchSize a;
             end1 = (if end0 > int (length syms) then int (length syms) else end0)
         in if end1 < batchIdx then (w, Panicked SliceBounds, tr)
            else if batchSize a = 0 then (w, Panicked DivideByZero, tr)
            else
              (let batch = take (nat (end1 - batchIdx)) (drop (nat batchIdx) syms);
                   currentBatch = (batchIdx sdiv batchSize a) + 1;
                   tasks = map (fetch_task net a startTime endTime) (enumerate (nat batchIdx) batch);
                   st = collect now (arrival (nat currentBatch) (map fst tasks)) (w, successCount);
                   pause = (if currentBatch < totalBatches then [Paused (batchDelay a)] else [])
               in batch_loop now net arrival a syms startTime endTime totalBatches
                    (batchIdx + batchSize a)
                    (fst st, snd st,
                     tr @ [Batch currentBatch totalBatches (zip batch (map snd tasks))] @ pause)))
      else (w, Completed successCount, tr))"
  by pat_completeness auto
termination
proof (relation "measure (\<lambda>(now, net, arrival, a, syms, startTime, endTime, totalBatches, batchIdx, st).
    nat (int (length syms) - batchIdx))", goal_cases)
  case 1
  show ?case by simp
next
  case (2 now net arrival a syms startTime endTime totalBatches batchIdx w successCount tr)
  then have "0 < batchSize a"
    by (auto split: if_splits)
  with 2 show ?case by simp
qed

text \<open>\<^verbatim>\<open>fetchAllCandles\<close>: one refresh cycle.\<close>

definition fetchAllCandles ::
  "(nat \<Rightarrow> time) \<Rightarrow> network \<Rightarrow> (nat \<Rightarrow> result list \<Rightarrow> result list) \<Rightarrow> CandleFetcherActor
     \<Rightarrow> world \<Rightarrow> world \<times> cycle_status \<times> cycle_event list" where
  "fetchAllCandles now net arrival a w =
     (let syms = GetSymbols (cache w) in
      if length syms = 0 then (w, Skipped, [])
      else
        (let endTime = UnixMilli (now (clock w));
             startTime = UnixMilli (AddDate_days (now (clock w + 1)) (- candleDays a));
             w1 = w\<lparr>clock := clock w + 2\<rparr>
         in if batchSize a = 0 then (w1, Panicked DivideByZero, [])
            else
              (let totalBatches = (int (length syms) + batchSize a - 1) sdiv batchSize a
               in batch_loop now net arrival a syms startTime endTime totalBatches 0 (w1, 0, []))))"

text \<open>The batches of a trace, and the identifier lists they hold.\<close>

fun batches_of :: "cycle_event list \<Rightarrow> string list list" where
  "batches_of [] = []"
| "batches_of (Batch n m launched # rest) = map fst launched # batches_of rest"
| "batches_of (Paused d # rest) = batches_of rest"

text \<open>
  The window of a cycle started in world \<open>w\<close>, and what the retry wrapper returns in
  the goroutine that this cycle launches for position \<open>i\<close> of the identifier list \<open>syms\<close>.
\<close>

definition window :: "(nat \<Rightarrow> time) \<Rightarrow> CandleFetcherActor \<Rightarrow> world \<Rightarrow> int64 \<times> int64" where
  "window now a w =
     (UnixMilli (AddDate_days (now (clock w + 1)) (- candleDays a)), UnixMilli (now (clock w)))"

definition retry_outcome ::
  "(nat \<Rightarrow> time) \<Rightarrow> network \<Rightarrow> CandleFetcherActor \<Rightarrow> world \<Rightarrow> string list \<Rightarrow> nat
     \<Rightarrow> error + Candle list" where
  "retry_outcome now net a w syms i =
     fst (FetchCandlesWithRetry
            (net i (syms ! i) (candleInterval a) (fst (window now a w)) (snd (window now a w))) 3)"

text \<open>The bars that the collecting loop stores for a result.\<close>

definition stored :: "result \<Rightarrow> Candle list" where
  "stored res = (if res_err res \<noteq> None then [] else res_candles res)"

text \<open>
  The partition the specification describes: consecutive runs of \<open>B\<close> elements, in input
  order, the last one possibly shorter. The loop's batches are compared with it below.
\<close>

function chunks :: "nat \<Rightarrow> 'a list \<Rightarrow> 'a list list" where
  "chunks B xs = (if B = 0 \<or> xs = [] then [] else take B xs # chunks B (drop B xs))"
  by pat_completeness auto
termination
  by (relation "measure (\<lambda>(B, xs). length xs)") auto

text \<open>The bars cached under a key, if the key has an entry.\<close>

definition series :: "Cache \<Rightarrow> string \<Rightarrow> Candle list option" where
  "series c k = map_option Candles (data c k)"

section \<open>Candle client (src/hyperliquid.go, FetchCandles)\<close>

text \<open>
  A JSON document as the scanner of \<^verbatim>\<open>encoding/json\<close> delivers it: a number is kept as
  its literal, a string as its contents, an object as its members in document order.
\<close>

datatype json =
    JNull
  | JBool bool
  | JNumber string
  | JString string
  | JArray "json list"
  | JObject "(string \<times> json) list"

text \<open>
  \<^verbatim>\<open>HyperliquidCandle\<close> (types.go); the fields are named after the loop variable \<^verbatim>\<open>rc\<close>
  of the client. \<^verbatim>\<open>O\<close>, \<^verbatim>\<open>H\<close>, \<^verbatim>\<open>L\<close>, \<^verbatim>\<open>C\<close> and \<^verbatim>\<open>V\<close> carry the tag \<^verbatim>\<open>`json:"o,string"`\<close>
  and so on; \<^verbatim>\<open>T\<close> and \<^verbatim>\<open>N\<close> carry a plain name. \<^verbatim>\<open>N\<close> is a Go \<^verbatim>\<open>int\<close>, taken as 64 bits.
\<close>

record HyperliquidCandle =
  rc_T :: int64
  rc_O :: float64
  rc_H :: float64
  rc_L :: float64
  rc_C :: float64
  rc_V :: float64
  rc_N :: int64

definition zero_candle :: HyperliquidCandle where
  "zero_candle = \<lparr>rc_T = 0, rc_O = 0, rc_H = 0, rc_L = 0, rc_C = 0, rc_V = 0, rc_N = 0\<rparr>"

datatype field = FT | FO | FH | FL | FC | FV | FN

text \<open>
  The field a member's key selects: the exact name or, failing that, a match that
  ignores case. For these one-letter names that is the capital letter.
\<close>

definition field_of_key :: "string \<Rightarrow> field option" where
  "field_of_key k =
     (if k = ''t'' \<or> k = ''T'' then Some FT
      else if k = ''o'' \<or> k = ''O'' then Some FO
      else if k = ''h'' \<or> k = ''H'' then Some FH
      else if k = ''l'' \<or> k = ''L'' then Some FL
      else if k = ''c'' \<or> k = ''C'' then Some FC
      else if k = ''v'' \<or> k = ''V'' then Some FV
      else if k = ''n'' \<or> k = ''N'' then Some FN
      else None)"

text \<open>\<^verbatim>\<open>strconv.ParseInt(s, 10, 64)\<close>: an optional sign and decimal digits, within 64 bits.\<close>

definition is_digit :: "char \<Rightarrow> bool" where
  "is_digit c \<longleftrightarrow> 48 \<le> (of_char c :: int) \<and> (of_char c :: int) \<le> 57"

fun digits_value :: "string \<Rightarrow> int \<Rightarrow> int option" where
  "digits_value [] acc = Some acc"
| "digits_value (c # cs) acc =
     (if is_digit c then digits_value cs (10 * acc + (of_char c - 48)) else None)"

definition ParseInt :: "string \<Rightarrow> int64 option" where
  "ParseInt s =
     (let v = (case s of
                 [] \<Rightarrow> None
               | c # cs \<Rightarrow>
                   if c = CHR ''-'' then
                     (if cs = [] then None else map_option uminus (digits_value cs 0))
                   else if c = CHR ''+'' then
                     (if cs = [] then None else digits_value cs 0)
                   else digits_value s 0)
      in case v of
           None \<Rightarrow> None
         | Some n \<Rightarrow> if - (2 ^ 63) \<le> n \<and> n < 2 ^ 63 then Some (word_of_int n) else None)"

text \<open>
  What the decoder does with the value of a member, by the field it selects. \<open>Inr None\<close>
  leaves the field as it is (JSON \<^verbatim>\<open>null\<close>), \<open>Inr (Some x)\<close> stores \<open>x\<close>.

  A field without the \<^verbatim>\<open>string\<close> option of an integer type takes a JSON number whose
  literal \<^verbatim>\<open>ParseInt\<close> accepts.
\<close>

definition decode_int :: "json \<Rightarrow> decode_error + int64 option" where
  "decode_int j =
     (case j of
        JNull \<Rightarrow> Inr None
      | JBool b \<Rightarrow> Inl (TypeMismatch ''bool'')
      | JNumber s \<Rightarrow>
          (case ParseInt s of None \<Rightarrow> Inl (TypeMismatch ''number'') | Some n \<Rightarrow> Inr (Some n))
      | JString s \<Rightarrow> Inl (TypeMismatch ''string'')
      | JArray els \<Rightarrow> Inl (TypeMismatch ''array'')
      | JObject ms \<Rightarrow> Inl (TypeMismatch ''object''))"

text \<open>
  A \<^verbatim>\<open>float64\<close> field with the \<^verbatim>\<open>string\<close> option takes a JSON string and decodes the
  string's contents as a literal: \<^verbatim>\<open>null\<close>, or a number that starts with a digit or a minus
  sign and that \<^verbatim>\<open>strconv.ParseFloat(s, 64)\<close> accepts. The float parser is the argument
  \<open>parseFloat\<close>. Any value that is neither a string nor \<^verbatim>\<open>null\<close>, a JSON number included, is
  the error "trying to unmarshal unquoted value into float64".
\<close>

definition decode_quoted_float :: "(string \<Rightarrow> float64 option) \<Rightarrow> json \<Rightarrow> decode_error + float64 option" where
  "decode_quoted_float parseFloat j =
     (case j of
        JNull \<Rightarrow> Inr None
      | JString s \<Rightarrow>
          (if s = ''null'' then Inr None
           else case s of
                  [] \<Rightarrow> Inl (BadQuotedValue s)
                | c # cs \<Rightarrow>
                    if c = CHR ''-'' \<or> is_digit c then
                      (case parseFloat s of
                         None \<Rightarrow> Inl (TypeMismatch ''number'')
                       | Some x \<Rightarrow> Inr (Some x))
                    else Inl (BadQuotedValue s))
      | JBool b \<Rightarrow> Inl UnquotedValue
      | JNumber s \<Rightarrow> Inl UnquotedValue
      | JArray els \<Rightarrow> Inl UnquotedValue
      | JObject ms \<Rightarrow> Inl UnquotedValue)"

text \<open>
  The decoder keeps the first error it meets and goes on. (Go lets some of the errors of
  a quoted value end the decoding at once and then reports that one; the client only
  tests the error for \<^verbatim>\<open>nil\<close>.)
\<close>

definition saveError :: "decode_error option \<Rightarrow> decode_error \<Rightarrow> decode_error option" where
  "saveError saved e = (case saved of None \<Rightarrow> Some e | Some e0 \<Rightarrow> Some e0)"

definition store_int ::
  "(int64 \<Rightarrow> HyperliquidCandle) \<Rightarrow> HyperliquidCandle \<times> decode_error option \<Rightarrow> json
     \<Rightarrow> HyperliquidCandle \<times> decode_error option" where
  "store_int upd st v =
     (case decode_int v of
        Inl e \<Rightarrow> (fst st, saveError (snd st) e)
      | Inr None \<Rightarrow> st
      | Inr (Some n) \<Rightarrow> (upd n, snd st))"

definition store_float ::
  "(string \<Rightarrow> float64 option) \<Rightarrow> (float64 \<Rightarrow> HyperliquidCandle)
     \<Rightarrow> HyperliquidCandle \<times> decode_error option \<Rightarrow> json
     \<Rightarrow> HyperliquidCandle \<times> decode_error option" where
  "store_float parseFloat upd st v =
     (case decode_quoted_float parseFloat v of
        Inl e \<Rightarrow> (fst st, saveError (snd st) e)
      | Inr None \<Rightarrow> st
      | Inr (Some x) \<Rightarrow> (upd x, snd st))"

text \<open>One member of a candle object; a key that selects no field is skipped.\<close>

definition store_member ::
  "(string \<Rightarrow> float64 option) \<Rightarrow> HyperliquidCandle \<times> decode_error option \<Rightarrow> string \<times> json
     \<Rightarrow> HyperliquidCandle \<times> decode_error option" where
  "store_member parseFloat st m =
     (let rc = fst st; v = snd m in
      case field_of_key (fst m) of
        None \<Rightarrow> st
      | Some FT \<Rightarrow> store_int (\<lambda>n. rc\<lparr>rc_T := n\<rparr>) st v
      | Some FO \<Rightarrow> store_float parseFloat (\<lambda>x. rc\<lparr>rc_O := x\<rparr>) st v
      | Some FH \<Rightarrow> store_float parseFloat (\<lambda>x. rc\<lparr>rc_H := x\<rparr>) st v
      | Some FL \<Rightarrow> store_float parseFloat (\<lambda>x. rc\<lparr>rc_L := x\<rparr>) st v
      | Some FC \<Rightarrow> store_float parseFloat (\<lambda>x. rc\<lparr>rc_C := x\<rparr>) st v
      | Some FV \<Rightarrow> store_float parseFloat (\<lambda>x. rc\<lparr>rc_V := x\<rparr>) st v
      | Some FN \<Rightarrow> store_int (\<lambda>n. rc\<lparr>rc_N := n\<rparr>) st v)"

text \<open>One element of the array, decoded into a zero \<^verbatim>\<open>HyperliquidCandle\<close>.\<close>

definition decode_element ::
  "(string \<Rightarrow> float64 option) \<Rightarrow> decode_error option \<Rightarrow> json
     \<Rightarrow> HyperliquidCandle \<times> decode_error option" where
  "decode_element parseFloat saved j =
     (case j of
        JNull \<Rightarrow> (zero_candle, saved)
      | JBool b \<Rightarrow> (zero_candle, saveError saved (TypeMismatch ''bool''))
      | JNumber s \<Rightarrow> (zero_candle, saveError saved (TypeMismatch ''number''))
      | JString s \<Rightarrow> (zero_candle, saveError saved (TypeMismatch ''string''))
      | JArray els \<Rightarrow> (zero_candle, saveError saved (TypeMismatch ''array''))
      | JObject ms \<Rightarrow> foldl (store_member parseFloat) (zero_candle, saved) ms)"

fun decode_elements ::
  "(string \<Rightarrow> float64 option) \<Rightarrow> decode_error option \<Rightarrow> json list
     \<Rightarrow> HyperliquidCandle list \<times> decode_error option" where
  "decode_elements parseFloat saved [] = ([], saved)"
| "decode_elements parseFloat saved (j # rest) =
     (let one = decode_element parseFloat saved j;
          more = decode_elements parseFloat (snd one) rest
      in (fst one # fst more, snd more))"

text \<open>\<^verbatim>\<open>json.Unmarshal(body, &rawCandles)\<close> for \<^verbatim>\<open>var rawCandles []HyperliquidCandle\<close>.\<close>

definition Unmarshal_candles ::
  "(string \<Rightarrow> float64 option) \<Rightarrow> json \<Rightarrow> HyperliquidCandle list \<times> decode_error option" where
  "Unmarshal_candles parseFloat j =
     (case j of
        JNull \<Rightarrow> ([], None)
      | JBool b \<Rightarrow> ([], Some (TypeMismatch ''bool''))
      | JNumber s \<Rightarrow> ([], Some (TypeMismatch ''number''))
      | JString s \<Rightarrow> ([], Some (TypeMismatch ''string''))
      | JArray els \<Rightarrow> decode_elements parseFloat None els
      | JObject ms \<Rightarrow> ([], Some (TypeMismatch ''object'')))"

definition to_candle :: "HyperliquidCandle \<Rightarrow> Candle" where
  "to_candle rc =
     \<lparr>Timestamp = rc_T rc, Open = rc_O rc, High = rc_H rc, Low = rc_L rc, Close = rc_C rc,
      Volume = rc_V rc\<rparr>"

text \<open>
  \<^verbatim>\<open>FetchCandles\<close>, from the exchange it meets. \<open>Undecodable SyntaxError\<close> is a body that
  is not JSON; \<open>Delivered j\<close> is a body that is the JSON document \<open>j\<close>.
\<close>

definition FetchCandles :: "(string \<Rightarrow> float64 option) \<Rightarrow> json exchange \<Rightarrow> error + Candle list" where
  "FetchCandles parseFloat x =
     (case x of
        DoFailed m \<Rightarrow> Inl (RequestFailed m)
      | BadStatus code body \<Rightarrow> Inl (ApiStatus code body)
      | ReadError m \<Rightarrow> Inl (ReadFailed m)
      | Undecodable e \<Rightarrow> Inl (ParseFailed e)
      | Delivered j \<Rightarrow>
          (case snd (Unmarshal_candles parseFloat j) of
             Some e \<Rightarrow> Inl (ParseFailed e)
           | None \<Rightarrow> Inr (map to_candle (fst (Unmarshal_candles parseFloat j)))))"

text \<open>
  A member as the upstream API encodes it: a price or volume is a JSON string holding a
  number that the float parser accepts, a timestamp or trade count is a JSON number that
  \<^verbatim>\<open>ParseInt\<close> accepts, and a key that selects no field may hold anything.
\<close>

definition float_field :: "field \<Rightarrow> bool" where
  "float_field f \<longleftrightarrow> f = FO \<or> f = FH \<or> f = FL \<or> f = FC \<or> f = FV"

definition number_string :: "(string \<Rightarrow> float64 option) \<Rightarrow> json \<Rightarrow> bool" where
  "number_string parseFloat v =
     (case v of
        JString s \<Rightarrow>
          (case s of [] \<Rightarrow> False
           | c # cs \<Rightarrow> (c = CHR ''-'' \<or> is_digit c) \<and> parseFloat s \<noteq> None)
      | _ \<Rightarrow> False)"

definition integer_number :: "json \<Rightarrow> bool" where
  "integer_number v = (case v of JNumber s \<Rightarrow> ParseInt s \<noteq> None | _ \<Rightarrow> False)"

definition string_encoded :: "(string \<Rightarrow> float64 option) \<Rightarrow> string \<times> json \<Rightarrow> bool" where
  "string_encoded parseFloat m =
     (case field_of_key (fst m) of
        None \<Rightarrow> True
      | Some f \<Rightarrow> if float_field f then number_string parseFloat (snd m) else integer_number (snd m))"

text \<open>
  The candle that an object of the payload stands for, said without the decoder: each
  field holds the parsed value of the last member of the object whose key names the
  field (in either case), and zero when no member does or its value does not parse.
\<close>

definition last_value :: "string list \<Rightarrow> (string \<times> json) list \<Rightarrow> json option" where
  "last_value keys ms =
     (let named = filter (\<lambda>m. fst m \<in> set keys) ms
      in if named = [] then None else Some (snd (last named)))"

definition int_value :: "int64 \<Rightarrow> json option \<Rightarrow> int64" where
  "int_value old v =
     (case v of
        Some (JNumber s) \<Rightarrow> (case ParseInt s of None \<Rightarrow> old | Some n \<Rightarrow> n)
      | _ \<Rightarrow> old)"

definition float_value :: "(string \<Rightarrow> float64 option) \<Rightarrow> float64 \<Rightarrow> json option \<Rightarrow> float64" where
  "float_value parseFloat old v =
     (case v of
        Some (JString s) \<Rightarrow> (case parseFloat s of None \<Rightarrow> old | Some x \<Rightarrow> x)
      | _ \<Rightarrow> old)"

definition parsed_candle :: "(string \<Rightarrow> float64 option) \<Rightarrow> (string \<times> json) list \<Rightarrow> Candle" where
  "parsed_candle parseFloat ms =
     \<lparr>Timestamp = int_value 0 (last_value [''t'', ''T''] ms),
      Open = float_value parseFloat 0 (last_value [''o'', ''O''] ms),
      High = float_value parseFloat 0 (last_value [''h'', ''H''] ms),
      Low = float_value parseFloat 0 (last_value [''l'', ''L''] ms),
      Close = float_value parseFloat 0 (last_value [''c'', ''C''] ms),
      Volume = float_value parseFloat 0 (last_value [''v'', ''V''] ms)\<rparr>"

text \<open>The same for the raw struct, starting from the values \<open>rc\<close> it holds already.\<close>

definition decoded_from ::
  "(string \<Rightarrow> float64 option) \<Rightarrow> HyperliquidCandle \<Rightarrow> (string \<times> json) list \<Rightarrow> HyperliquidCandle" where
  "decoded_from parseFloat rc ms =
     \<lparr>rc_T = int_value (rc_T rc) (last_value [''t'', ''T''] ms),
      rc_O = float_value parseFloat (rc_O rc) (last_value [''o'', ''O''] ms),
      rc_H = float_value parseFloat (rc_H rc) (last_value [''h'', ''H''] ms),
      rc_L = float_value parseFloat (rc_L rc) (last_value [''l'', ''L''] ms),
      rc_C = float_value parseFloat (rc_C rc) (last_value [''c'', ''C''] ms),
      rc_V = float_value parseFloat (rc_V rc) (last_value [''v'', ''V''] ms),
      rc_N = int_value (rc_N rc) (last_value [''n'', ''N''] ms)\<rparr>"

section \<open>Shared storage (cache.go, src/unnamed/part_000, Get and GetAll)\<close>

text \<open>
  Go maps and slices are references. To say what a caller can reach through the value
  that \<^verbatim>\<open>GetAll\<close> returns, this section keeps the objects in a store: a \<^verbatim>\<open>[]Candle\<close> is a
  slice header (the address of its backing array and its length; the program never
  reslices, so the offset is 0 and the capacity plays no part), a
  \<^verbatim>\<open>map[string]CacheEntry\<close> is the address of a map object, and \<open>fresh\<close> is the next
  address the allocator hands out.
\<close>

type_synonym addr = nat

datatype slice = NilSlice | SliceRef addr nat

record EntryRef =
  eSymbol :: string
  eCandles :: slice
  eLastUpdate :: time

record store =
  arrays :: "addr \<rightharpoonup> Candle list"
  maps :: "addr \<rightharpoonup> (string \<rightharpoonup> EntryRef)"
  fresh :: addr

text \<open>Of the \<^verbatim>\<open>Cache\<close> struct only the field \<^verbatim>\<open>data\<close> matters here: the address of its map.\<close>

record CacheRef =
  data_at :: addr

definition new_store :: store where
  "new_store = \<lparr>arrays = Map.empty, maps = Map.empty, fresh = 0\<rparr>"

text \<open>The map object at an address (reading a missing map yields no entries).\<close>

definition map_at :: "store \<Rightarrow> addr \<Rightarrow> (string \<rightharpoonup> EntryRef)" where
  "map_at st a = (case maps st a of None \<Rightarrow> Map.empty | Some m \<Rightarrow> m)"

text \<open>The elements a slice header gives access to.\<close>

definition contents :: "store \<Rightarrow> slice \<Rightarrow> Candle list" where
  "contents st sl =
     (case sl of
        NilSlice \<Rightarrow> []
      | SliceRef a n \<Rightarrow> (case arrays st a of None \<Rightarrow> [] | Some xs \<Rightarrow> take n xs))"

text \<open>\<^verbatim>\<open>NewCache\<close>: \<^verbatim>\<open>make(map[string]CacheEntry)\<close>.\<close>

definition NewCache_ref :: "store \<Rightarrow> CacheRef \<times> store" where
  "NewCache_ref st =
     (\<lparr>data_at = fresh st\<rparr>, st\<lparr>maps := (maps st)(fresh st \<mapsto> Map.empty), fresh := fresh st + 1\<rparr>)"

text \<open>
  \<^verbatim>\<open>candles := make([]Candle, len(rawCandles))\<close> of the client, filled with its elements.
\<close>

definition make_slice :: "store \<Rightarrow> Candle list \<Rightarrow> slice \<times> store" where
  "make_slice st cs =
     (SliceRef (fresh st) (length cs),
      st\<lparr>arrays := (arrays st)(fresh st \<mapsto> cs), fresh := fresh st + 1\<rparr>)"

text \<open>
  \<^verbatim>\<open>Set\<close> stores the caller's slice header in the entry, \<^verbatim>\<open>Get\<close> returns the entry with
  that header, and \<^verbatim>\<open>GetAll\<close> allocates a new map and assigns it every entry of
  \<^verbatim>\<open>c.data\<close>, the keys coming in the order \<open>keys\<close>. None of them copies a backing array.
\<close>

definition Set_ref :: "store \<Rightarrow> CacheRef \<Rightarrow> string \<Rightarrow> slice \<Rightarrow> time \<Rightarrow> store" where
  "Set_ref st c k sl t =
     st\<lparr>maps := (maps st)(data_at c \<mapsto>
          (map_at st (data_at c))(k \<mapsto> \<lparr>eSymbol = k, eCandles = sl, eLastUpdate = t\<rparr>))\<rparr>"

definition zero_entry_ref :: EntryRef where
  "zero_entry_ref = \<lparr>eSymbol = [], eCandles = NilSlice, eLastUpdate = 0\<rparr>"

definition Get_ref :: "store \<Rightarrow> CacheRef \<Rightarrow> string \<Rightarrow> EntryRef \<times> bool" where
  "Get_ref st c k =
     (case map_at st (data_at c) k of None \<Rightarrow> (zero_entry_ref, False) | Some e \<Rightarrow> (e, True))"

definition GetAll_ref :: "string list \<Rightarrow> store \<Rightarrow> CacheRef \<Rightarrow> addr \<times> store" where
  "GetAll_ref keys st c =
     (let result = fold (\<lambda>k res. res(k := map_at st (data_at c) k)) keys Map.empty
      in (fresh st, st\<lparr>maps := (maps st)(fresh st \<mapsto> result), fresh := fresh st + 1\<rparr>))"

text \<open>
  What a caller of \<^verbatim>\<open>Get\<close> sees when it reads the entry it was given: the entry with the
  bars its slice holds at that time.
\<close>

definition view :: "store \<Rightarrow> EntryRef \<times> bool \<Rightarrow> CacheEntry \<times> bool" where
  "view st r =
     (\<lparr>Symbol = eSymbol (fst r), Candles = contents st (eCandles (fst r)),
       LastUpdate = eLastUpdate (fst r)\<rparr>, snd r)"

text \<open>
  What a caller can do to the map \<open>all\<close> it got from \<^verbatim>\<open>GetAll\<close>: assign an entry
  (\<^verbatim>\<open>all[k] = e\<close>), delete one (\<^verbatim>\<open>delete(all, k)\<close>), or assign an element of an entry's bars
  (\<^verbatim>\<open>all[k].Candles[i] = x\<close>), which panics when the index is out of range. \<open>None\<close> is the
  panic.
\<close>

datatype mutation = PutEntry string EntryRef | DeleteEntry string | PutBar string nat Candle

fun mutate :: "addr \<Rightarrow> store \<Rightarrow> mutation \<Rightarrow> store option" where
  "mutate r st (PutEntry k e) = Some (st\<lparr>maps := (maps st)(r \<mapsto> (map_at st r)(k \<mapsto> e))\<rparr>)"
| "mutate r st (DeleteEntry k) = Some (st\<lparr>maps := (maps st)(r \<mapsto> (map_at st r)(k := None))\<rparr>)"
| "mutate r st (PutBar k i x) =
     (case (case map_at st r k of None \<Rightarrow> NilSlice | Some e \<Rightarrow> eCandles e) of
        NilSlice \<Rightarrow> None
      | SliceRef a n \<Rightarrow>
          (case arrays st a of
             None \<Rightarrow> None
           | Some xs \<Rightarrow>
               if i < n \<and> i < length xs
               then Some (st\<lparr>arrays := (arrays st)(a \<mapsto> xs[i := x])\<rparr>)
               else None))"

fun mutate_all :: "addr \<Rightarrow> store \<Rightarrow> mutation list \<Rightarrow> store option" where
  "mutate_all r st [] = Some st"
| "mutate_all r st (m # ms) =
     (case mutate r st m of None \<Rightarrow> None | Some st' \<Rightarrow> mutate_all r st' ms)"

text \<open>The mutations of the map itself, as opposed to those of the bars inside an entry.\<close>

fun map_level :: "mutation \<Rightarrow> bool" where
  "map_level (PutEntry k e) = True"
| "map_level (DeleteEntry k) = True"
| "map_level (PutBar k i x) = False"

text \<open>
  The cache of the earlier sections is this one with every slice header replaced by the
  bars it holds.
\<close>

definition abs_entry :: "store \<Rightarrow> EntryRef \<Rightarrow> CacheEntry" where
  "abs_entry st e =
     \<lparr>Symbol = eSymbol e, Candles = contents st (eCandles e), LastUpdate = eLastUpdate e\<rparr>"

definition abs_data :: "store \<Rightarrow> CacheRef \<Rightarrow> (string \<rightharpoonup> CacheEntry)" where
  "abs_data st c = (\<lambda>k. map_option (abs_entry st) (map_at st (data_at c) k))"

text \<open>
  A cache after one \<^verbatim>\<open>Set\<close>: a new cache, a slice made by the client holding one bar, stored
  under \<^verbatim>\<open>"BTC"\<close> at time 5.
\<close>

definition btc_cache :: "CacheRef \<times> store" where
  "btc_cache =
     (let made = NewCache_ref new_store;
          sl = make_slice (snd made)
                 [\<lparr>Timestamp = 1, Open = 2, High = 3, Low = 1, Close = 2, Volume = 9\<rparr>]
      in (fst made, Set_ref (snd sl) (fst made) ''BTC'' (fst sl) 5))"

section \<open>Retry wrapper: properties\<close>

declare retry_loop.simps [simp del]

lemma retry_loop_done:
  "\<not> attempt < maxRetries \<Longrightarrow>
     retry_loop fetch maxRetries attempt lastErr = (Inl (RetriesExhausted maxRetries lastErr), [])"
  by (simp add: retry_loop.simps)

lemma retry_loop_success:
  "attempt < maxRetries \<Longrightarrow> fetch (nat attempt) = Inr cs \<Longrightarrow>
     retry_loop fetch maxRetries attempt lastErr = (Inr cs, [Attempt (nat attempt)])"
  by (subst retry_loop.simps) simp

lemma retry_loop_failure:
  "attempt < maxRetries \<Longrightarrow> fetch (nat attempt) = Inl e \<Longrightarrow>
     retry_loop fetch maxRetries attempt lastErr =
       (fst (retry_loop fetch maxRetries (attempt + 1) (Some e)),
        Attempt (nat attempt) # (if attempt < maxRetries - 1 then [Sleep (backoff attempt)] else [])
          @ snd (retry_loop fetch maxRetries (attempt + 1) (Some e)))"
  by (subst retry_loop.simps) (simp add: Let_def)

text \<open>
  Claim C10. With \<open>maxRetries \<le> 0\<close> the loop body never runs: no call of the fetch, no
  sleep, and the result is the error that wraps \<^verbatim>\<open>nil\<close>.
\<close>

theorem retry_nonpositive_no_attempt:
  "maxRetries \<le> 0 \<Longrightarrow>
     FetchCandlesWithRetry fetch maxRetries = (Inl (RetriesExhausted maxRetries None), [])"
  by (simp add: FetchCandlesWithRetry_def retry_loop_done)

theorem retry_nonpositive_no_attempt_witness:
  "(-2::int) \<le> 0 \<and>
   FetchCandlesWithRetry (\<lambda>k. Inr []) (-2) = (Inl (RetriesExhausted (-2) None), []) \<and>
   attempts (snd (FetchCandlesWithRetry (\<lambda>k. Inr []) (-2))) = [] \<and>
   sleeps (snd (FetchCandlesWithRetry (\<lambda>k. Inr []) (-2))) = []"
  using retry_nonpositive_no_attempt [of "-2" "\<lambda>k. Inr []"]
  by (simp add: attempts_def sleeps_def)

lemma Second_backoff0: "backoff 0 = Second" by (simp add: backoff_def)
lemma Second_backoff1: "backoff 1 = 2 * Second" by (simp add: backoff_def)

text \<open>Up to iteration 33 the sleep is \<open>2 ^ attempt\<close> seconds; from 34 on the product wraps.\<close>

lemma backoff_small:
  assumes "0 \<le> k" "k \<le> 33"
  shows "sint (backoff k) = 2 ^ nat k * 1000000000"
proof -
  define x :: int where "x = 2 ^ nat k * 1000000000"
  have "nat k \<le> 33" using assms by simp
  then have "(2::int) ^ nat k \<le> 2 ^ 33" by (intro power_increasing) simp_all
  then have hi: "x < 2 ^ 63" by (simp add: x_def)
  have "- (2 ^ 63) \<le> (0::int)" by simp
  moreover have "0 \<le> x" by (simp add: x_def)
  ultimately have lo: "- (2 ^ 63) \<le> x" by (rule order_trans)
  have "backoff k = word_of_int x"
    by (simp add: backoff_def Second_def push_bit_eq_mult x_def)
  then have "sint (backoff k) = signed_take_bit 63 x"
    by (simp add: signed_of_int)
  also have "\<dots> = x"
    using lo hi by (rule signed_take_bit_int_eq_self)
  finally show ?thesis by (simp add: x_def)
qed

lemma attempts_simps [simp]:
  "attempts [] = []"
  "attempts (Attempt k # tr) = k # attempts tr"
  "attempts (Sleep d # tr) = attempts tr"
  by (simp_all add: attempts_def)

lemma sleeps_simps [simp]:
  "sleeps [] = []"
  "sleeps (Attempt k # tr) = sleeps tr"
  "sleeps (Sleep d # tr) = d # sleeps tr"
  by (simp_all add: sleeps_def)

lemma retry_loop_all_fail:
  "(\<forall>k. fetch k = Inl (errs k)) \<Longrightarrow> 0 \<le> attempt \<Longrightarrow> attempt < maxRetries \<Longrightarrow>
     fst (retry_loop fetch maxRetries attempt lastErr) =
       Inl (RetriesExhausted maxRetries (Some (errs (nat (maxRetries - 1))))) \<and>
     attempts (snd (retry_loop fetch maxRetries attempt lastErr)) = [nat attempt ..< nat maxRetries] \<and>
     sleeps (snd (retry_loop fetch maxRetries attempt lastErr)) =
       map (\<lambda>k. backoff (int k)) [nat attempt ..< nat (maxRetries - 1)]"
proof (induction fetch maxRetries attempt lastErr rule: retry_loop.induct)
  case (1 fetch maxRetries attempt lastErr)
  have f: "fetch (nat attempt) = Inl (errs (nat attempt))" using "1.prems" by simp
  show ?case
  proof (cases "attempt + 1 < maxRetries")
    case True
    have ih: "fst (retry_loop fetch maxRetries (attempt + 1) (Some (errs (nat attempt)))) =
       Inl (RetriesExhausted maxRetries (Some (errs (nat (maxRetries - 1))))) \<and>
     attempts (snd (retry_loop fetch maxRetries (attempt + 1) (Some (errs (nat attempt))))) = [nat (attempt + 1) ..< nat maxRetries] \<and>
     sleeps (snd (retry_loop fetch maxRetries (attempt + 1) (Some (errs (nat attempt))))) =
       map (\<lambda>k. backoff (int k)) [nat (attempt + 1) ..< nat (maxRetries - 1)]"
      using "1.IH"[OF "1.prems"(3) f refl "1.prems"(1)] "1.prems"(2) True by simp
    have a: "[nat attempt ..< nat maxRetries] = nat attempt # [nat (attempt + 1) ..< nat maxRetries]"
      using "1.prems" by (simp add: upt_conv_Cons nat_add_distrib)
    have b: "[nat attempt ..< nat (maxRetries - 1)] = nat attempt # [nat (attempt + 1) ..< nat (maxRetries - 1)]"
      using "1.prems" True by (simp add: upt_conv_Cons nat_add_distrib)
    have step: "retry_loop fetch maxRetries attempt lastErr =
       (fst (retry_loop fetch maxRetries (attempt + 1) (Some (errs (nat attempt)))),
        Attempt (nat attempt) # Sleep (backoff attempt)
          # snd (retry_loop fetch maxRetries (attempt + 1) (Some (errs (nat attempt)))))"
      using retry_loop_failure[OF "1.prems"(3), of fetch "errs (nat attempt)" lastErr] f True
      by simp
    show ?thesis
      unfolding step using ih "1.prems"(2) by (simp add: a b)
  next
    case False
    then have eq: "attempt = maxRetries - 1" using "1.prems" by simp
    have a: "[nat attempt ..< nat maxRetries] = [nat attempt]"
      using "1.prems" eq by (simp add: upt_conv_Cons nat_diff_distrib)
    have b: "[nat attempt ..< nat (maxRetries - 1)] = []"
      using eq by simp
    have step: "retry_loop fetch maxRetries attempt lastErr =
       (Inl (RetriesExhausted maxRetries (Some (errs (nat attempt)))), [Attempt (nat attempt)])"
      using retry_loop_failure[OF "1.prems"(3), of fetch "errs (nat attempt)" lastErr] f False
      by (simp add: retry_loop_done)
    show ?thesis
      unfolding step a b using eq by simp
  qed
qed

text \<open>
  Claim C2. With \<open>maxRetries = 3\<close>: when the first two calls fail and the third succeeds,
  the result is the third call's candles and the trace is three calls with sleeps of one
  and two seconds after the first and the second; when all three calls fail, the trace is
  the same and the result is the error wrapping the third call's error. For any positive
  \<open>maxRetries\<close> and a fetch that always fails there are exactly \<open>maxRetries\<close> calls, a
  sleep of \<open>backoff k\<close> after every call \<open>k\<close> but the last, and the error wraps the last
  call's error.
\<close>

theorem retry_three_attempts:
  "(fetch 0 = Inl e0 \<and> fetch 1 = Inl e1 \<and> fetch 2 = Inr cs \<longrightarrow>
      FetchCandlesWithRetry fetch 3 =
        (Inr cs, [Attempt 0, Sleep Second, Attempt 1, Sleep (2 * Second), Attempt 2])) \<and>
   (fetch 0 = Inl e0 \<and> fetch 1 = Inl e1 \<and> fetch 2 = Inl e2 \<longrightarrow>
      FetchCandlesWithRetry fetch 3 =
        (Inl (RetriesExhausted 3 (Some e2)),
         [Attempt 0, Sleep Second, Attempt 1, Sleep (2 * Second), Attempt 2])) \<and>
   ((\<forall>k. fetch k = Inl (errs k)) \<and> 0 < maxRetries \<longrightarrow>
      fst (FetchCandlesWithRetry fetch maxRetries) =
        Inl (RetriesExhausted maxRetries (Some (errs (nat maxRetries - 1)))) \<and>
      attempts (snd (FetchCandlesWithRetry fetch maxRetries)) = [0 ..< nat maxRetries] \<and>
      sleeps (snd (FetchCandlesWithRetry fetch maxRetries)) =
        map (\<lambda>k. backoff (int k)) [0 ..< nat maxRetries - 1])"
proof (intro conjI impI)
  assume h: "fetch 0 = Inl e0 \<and> fetch 1 = Inl e1 \<and> fetch 2 = Inr cs"
  have s2: "retry_loop fetch 3 2 (Some e1) = (Inr cs, [Attempt 2])"
    using retry_loop_success[of 2 3 fetch cs "Some e1"] h by simp
  have s1: "retry_loop fetch 3 1 (Some e0) = (Inr cs, [Attempt 1, Sleep (2 * Second), Attempt 2])"
    using retry_loop_failure[of 1 3 fetch e1 "Some e0"] h s2 by (simp add: Second_backoff1)
  show "FetchCandlesWithRetry fetch 3 =
        (Inr cs, [Attempt 0, Sleep Second, Attempt 1, Sleep (2 * Second), Attempt 2])"
    using retry_loop_failure[of 0 3 fetch e0 None] h s1
    by (simp add: FetchCandlesWithRetry_def Second_backoff0)
next
  assume h: "fetch 0 = Inl e0 \<and> fetch 1 = Inl e1 \<and> fetch 2 = Inl e2"
  have s3: "retry_loop fetch 3 3 (Some e2) = (Inl (RetriesExhausted 3 (Some e2)), [])"
    by (simp add: retry_loop_done)
  have s2: "retry_loop fetch 3 2 (Some e1) = (Inl (RetriesExhausted 3 (Some e2)), [Attempt 2])"
    using retry_loop_failure[of 2 3 fetch e2 "Some e1"] h s3 by simp
  have s1: "retry_loop fetch 3 1 (Some e0) =
      (Inl (RetriesExhausted 3 (Some e2)), [Attempt 1, Sleep (2 * Second), Attempt 2])"
    using retry_loop_failure[of 1 3 fetch e1 "Some e0"] h s2 by (simp add: Second_backoff1)
  show "FetchCandlesWithRetry fetch 3 =
        (Inl (RetriesExhausted 3 (Some e2)),
         [Attempt 0, Sleep Second, Attempt 1, Sleep (2 * Second), Attempt 2])"
    using retry_loop_failure[of 0 3 fetch e0 None] h s1
    by (simp add: FetchCandlesWithRetry_def Second_backoff0)
next
  assume h: "(\<forall>k. fetch k = Inl (errs k)) \<and> 0 < maxRetries"
  then have g: "fst (retry_loop fetch maxRetries 0 None) =
       Inl (RetriesExhausted maxRetries (Some (errs (nat (maxRetries - 1))))) \<and>
     attempts (snd (retry_loop fetch maxRetries 0 None)) = [nat 0 ..< nat maxRetries] \<and>
     sleeps (snd (retry_loop fetch maxRetries 0 None)) =
       map (\<lambda>k. backoff (int k)) [nat 0 ..< nat (maxRetries - 1)]"
    by (intro retry_loop_all_fail) simp_all
  have n: "nat (maxRetries - 1) = nat maxRetries - 1" using h by (simp add: nat_diff_distrib)
  show "fst (FetchCandlesWithRetry fetch maxRetries) =
        Inl (RetriesExhausted maxRetries (Some (errs (nat maxRetries - 1))))"
    using g n by (simp add: FetchCandlesWithRetry_def)
  show "attempts (snd (FetchCandlesWithRetry fetch maxRetries)) = [0 ..< nat maxRetries]"
    using g by (simp add: FetchCandlesWithRetry_def)
  show "sleeps (snd (FetchCandlesWithRetry fetch maxRetries)) =
        map (\<lambda>k. backoff (int k)) [0 ..< nat maxRetries - 1]"
    using g n by (simp add: FetchCandlesWithRetry_def)
qed

theorem retry_three_attempts_witness:
  "FetchCandlesWithRetry
     (\<lambda>k. if k < 2 then Inl (ApiStatus 429 ''slow down'') else Inr []) 3 =
     (Inr [], [Attempt 0, Sleep 1000000000, Attempt 1, Sleep 2000000000, Attempt 2]) \<and>
   FetchCandlesWithRetry (\<lambda>k. Inl (ApiStatus (int k) ''busy'')) 3 =
     (Inl (RetriesExhausted 3 (Some (ApiStatus 2 ''busy''))),
      [Attempt 0, Sleep 1000000000, Attempt 1, Sleep 2000000000, Attempt 2]) \<and>
   attempts (snd (FetchCandlesWithRetry (\<lambda>k. Inl (ApiStatus (int k) ''busy'')) 5)) = [0, 1, 2, 3, 4]"
  using retry_three_attempts [of "\<lambda>k. if k < 2 then Inl (ApiStatus 429 ''slow down'') else Inr []"
      "ApiStatus 429 ''slow down''" "ApiStatus 429 ''slow down''" "[]" "ApiStatus 429 ''slow down''" "\<lambda>k. ApiStatus (int k) ''busy''" 3]
    retry_three_attempts [of "\<lambda>k. Inl (ApiStatus (int k) ''busy'')"
      "ApiStatus 0 ''busy''" "ApiStatus 1 ''busy''" "[]" "ApiStatus 2 ''busy''" "\<lambda>k. ApiStatus (int k) ''busy''" 5]
  by (simp add: Second_def upt_conv_Cons)

section \<open>Universe client: properties\<close>

lemma collect_names_filter:
  "collect_names items acc =
     acc @ map Name (filter (\<lambda>item. Name item \<noteq> [] \<and> \<not> IsDelisted item) items)"
  by (induction items arbitrary: acc) simp_all

text \<open>
  Claim C7, as amended. From a delivered response the client returns exactly the names, in
  order, of the entries that have a non-empty name and are not marked delisted. So every
  returned identifier is non-empty and is the name of some entry not marked delisted; and
  when no two entries of the universe share a name, no delisted entry's name is returned.
\<close>

theorem universe_filter:
  "FetchPerpetualSymbols (Delivered r) =
     Inr (map Name (filter (\<lambda>item. Name item \<noteq> [] \<and> \<not> IsDelisted item) (Universe r))) \<and>
   (\<forall>syms. FetchPerpetualSymbols (Delivered r) = Inr syms \<longrightarrow>
      (\<forall>s \<in> set syms. s \<noteq> [] \<and> (\<exists>item \<in> set (Universe r). Name item = s \<and> \<not> IsDelisted item)) \<and>
      (distinct (map Name (Universe r)) \<longrightarrow>
         (\<forall>item \<in> set (Universe r). IsDelisted item \<longrightarrow> Name item \<notin> set syms)))"
proof -
  let ?keep = "\<lambda>item. Name item \<noteq> [] \<and> \<not> IsDelisted item"
  have eq: "FetchPerpetualSymbols (Delivered r) = Inr (map Name (filter ?keep (Universe r)))"
    by (simp add: FetchPerpetualSymbols_def collect_names_filter)
  have a: "s \<noteq> [] \<and> (\<exists>item \<in> set (Universe r). Name item = s \<and> \<not> IsDelisted item)"
    if "s \<in> set (map Name (filter ?keep (Universe r)))" for s
    using that by auto
  have b: "Name item \<notin> set (map Name (filter ?keep (Universe r)))"
    if d: "distinct (map Name (Universe r))" and i: "item \<in> set (Universe r)" and del: "IsDelisted item"
    for item
  proof
    assume "Name item \<in> set (map Name (filter ?keep (Universe r)))"
    then obtain other where o: "other \<in> set (Universe r)" "Name other = Name item" "\<not> IsDelisted other"
      by auto
    from d have "inj_on Name (set (Universe r))" by (simp add: distinct_map)
    with o i have "other = item" by (auto dest: inj_onD)
    with o del show False by simp
  qed
  show ?thesis
  proof (intro conjI allI impI ballI)
    show "FetchPerpetualSymbols (Delivered r) = Inr (map Name (filter ?keep (Universe r)))"
      by (rule eq)
  next
    fix syms s
    assume "FetchPerpetualSymbols (Delivered r) = Inr syms" "s \<in> set syms"
    with eq have "s \<in> set (map Name (filter ?keep (Universe r)))" by simp
    then show "s \<noteq> []" by (rule a [THEN conjunct1])
  next
    fix syms s
    assume "FetchPerpetualSymbols (Delivered r) = Inr syms" "s \<in> set syms"
    with eq have "s \<in> set (map Name (filter ?keep (Universe r)))" by simp
    then show "\<exists>item \<in> set (Universe r). Name item = s \<and> \<not> IsDelisted item"
      by (rule a [THEN conjunct2])
  next
    fix syms item
    assume "FetchPerpetualSymbols (Delivered r) = Inr syms"
    with eq have s: "syms = map Name (filter ?keep (Universe r))" by simp
    assume "distinct (map Name (Universe r))" "item \<in> set (Universe r)" "IsDelisted item"
    then show "Name item \<notin> set syms" unfolding s by (rule b)
  qed
qed

theorem universe_filter_witness:
  "FetchPerpetualSymbols (Delivered \<lparr>Universe =
      [\<lparr>Name = ''BTC'', IsDelisted = False\<rparr>, \<lparr>Name = ''LUNA'', IsDelisted = True\<rparr>,
       \<lparr>Name = [], IsDelisted = False\<rparr>, \<lparr>Name = ''ETH'', IsDelisted = False\<rparr>]\<rparr>) = Inr [''BTC'', ''ETH''] \<and>
   ''LUNA'' \<notin> set [''BTC'', ''ETH'']"
  using universe_filter [of "\<lparr>Universe =
      [\<lparr>Name = ''BTC'', IsDelisted = False\<rparr>, \<lparr>Name = ''LUNA'', IsDelisted = True\<rparr>,
       \<lparr>Name = [], IsDelisted = False\<rparr>, \<lparr>Name = ''ETH'', IsDelisted = False\<rparr>]\<rparr>"]
  by simp

text \<open>
  Claim C7 as stated fails when a delisted entry and a listed entry carry the same name:
  the name of the delisted entry is in the result.
\<close>

theorem delisted_name_returned:
  "FetchPerpetualSymbols (Delivered \<lparr>Universe =
      [\<lparr>Name = ''BTC'', IsDelisted = True\<rparr>, \<lparr>Name = ''BTC'', IsDelisted = False\<rparr>]\<rparr>) = Inr [''BTC''] \<and>
   IsDelisted \<lparr>Name = ''BTC'', IsDelisted = True\<rparr> \<and>
   Name \<lparr>Name = ''BTC'', IsDelisted = True\<rparr> \<in> set [''BTC'']"
  by (simp add: FetchPerpetualSymbols_def)

section \<open>Identifier refresh: properties\<close>

lemma run_snoc: "run now (steps @ [s]) = do_step now (run now steps) s"
  by (simp add: run_def)

lemma run_Nil: "run now [] = (NewSymbolFetcherActor, new_world)"
  by (simp add: run_def)

lemma fetched_universes_append:
  "fetched_universes (xs @ ys) = fetched_universes xs @ fetched_universes ys"
  by (induction xs rule: fetched_universes.induct) (simp_all split: sum.splits)

lemma symbol_writes_simps [simp]:
  "symbol_writes [] = []"
  "symbol_writes (log @ [WroteSymbols l]) = symbol_writes log @ [l]"
  "symbol_writes (log @ [WroteSeries k v]) = symbol_writes log"
  by (simp_all add: symbol_writes_def)

lemma Set_fields [simp]:
  "symbols (cache (Set now w k v)) = symbols (cache w)"
  "symbolUpdate (cache (Set now w k v)) = symbolUpdate (cache w)"
  "writes (Set now w k v) = writes w @ [WroteSeries k v]"
  "clock (Set now w k v) = clock w + 2"
  "data (cache (Set now w k v)) = (data (cache w))(k \<mapsto> \<lparr>Symbol = k, Candles = v, LastUpdate = now (clock w)\<rparr>)"
  "lastUpdate (cache (Set now w k v)) = now (clock w + 1)"
  by (simp_all add: Set_def Let_def)

lemma SetSymbols_fields [simp]:
  "symbols (cache (SetSymbols now w l)) = l"
  "symbolUpdate (cache (SetSymbols now w l)) = now (clock w)"
  "writes (SetSymbols now w l) = writes w @ [WroteSymbols l]"
  "clock (SetSymbols now w l) = clock w + 1"
  "data (cache (SetSymbols now w l)) = data (cache w)"
  "lastUpdate (cache (SetSymbols now w l)) = lastUpdate (cache w)"
  by (simp_all add: SetSymbols_def)

lemma fetchSymbols_failure:
  "FetchPerpetualSymbols x = Inl err \<Longrightarrow>
     fetchSymbols now x (a, w) =
       (if cachedSymbols a = [] then (a, w) else (a, SetSymbols now w (cachedSymbols a)))"
  by (simp add: fetchSymbols_def)

lemma fetchSymbols_success:
  "FetchPerpetualSymbols x = Inr syms \<Longrightarrow>
     fetchSymbols now x (a, w) =
       (if syms = [] then (a, w) else (a\<lparr>cachedSymbols := syms\<rparr>, SetSymbols now w syms))"
  by (simp add: fetchSymbols_def)

lemma refresh_inv_step: "refresh_inv st \<Longrightarrow> refresh_inv (do_step now st s)"
proof (cases s)
  case (Refresh x)
  assume inv: "refresh_inv st"
  obtain a w where st: "st = (a, w)" by (cases st)
  show ?thesis
  proof (cases "FetchPerpetualSymbols x")
    case (Inl err)
    then show ?thesis using inv by (simp add: Refresh st fetchSymbols_failure refresh_inv_def)
  next
    case (Inr syms)
    then show ?thesis using inv by (simp add: Refresh st fetchSymbols_success refresh_inv_def)
  qed
next
  case (SeriesWrite k v)
  assume "refresh_inv st"
  then show ?thesis by (simp add: SeriesWrite refresh_inv_def)
qed

lemma refresh_inv_run: "refresh_inv (run now steps)"
proof (induction steps rule: rev_induct)
  case Nil
  show ?case
    by (simp add: run_Nil refresh_inv_def NewSymbolFetcherActor_def new_world_def NewCache_def)
next
  case (snoc s steps)
  then show ?case by (simp add: run_snoc refresh_inv_step)
qed

lemma fallback_is_last_fetched:
  "cachedSymbols (fst (run now steps)) =
     (if fetched_universes steps = [] then [] else last (fetched_universes steps))"
proof (induction steps rule: rev_induct)
  case Nil
  show ?case by (simp add: run_Nil NewSymbolFetcherActor_def)
next
  case (snoc s steps)
  obtain a w where st: "run now steps = (a, w)" by (cases "run now steps")
  show ?case
  proof (cases s)
    case (Refresh x)
    show ?thesis
    proof (cases "FetchPerpetualSymbols x")
      case (Inl err)
      then show ?thesis using snoc st
        by (simp add: run_snoc Refresh fetched_universes_append fetchSymbols_failure)
    next
      case (Inr syms)
      then show ?thesis using snoc st
        by (simp add: run_snoc Refresh fetched_universes_append fetchSymbols_success)
    qed
  next
    case (SeriesWrite k v)
    then show ?thesis using snoc st
      by (simp add: run_snoc fetched_universes_append)
  qed
qed

text \<open>
  Claim C9. After any history, no identifier list written into the cache is empty and the
  fallback copy is the last non-empty universe fetched so far (the empty list while there
  is none). One more refresh writes exactly when the fetch succeeds with a non-empty list
  (that list, which also becomes the fallback) or fails while the fallback is non-empty
  (the fallback, which stays as it is); otherwise it writes nothing.
\<close>

theorem identifier_refresh_invariant:
  "(\<forall>l \<in> set (symbol_writes (writes (snd (run now steps)))). l \<noteq> []) \<and>
   cachedSymbols (fst (run now steps)) =
     (if fetched_universes steps = [] then [] else last (fetched_universes steps)) \<and>
   writes (snd (run now (steps @ [Refresh x]))) =
     writes (snd (run now steps)) @
       (case FetchPerpetualSymbols x of
          Inr syms \<Rightarrow> if syms = [] then [] else [WroteSymbols syms]
        | Inl err \<Rightarrow>
            if cachedSymbols (fst (run now steps)) = [] then []
            else [WroteSymbols (cachedSymbols (fst (run now steps)))]) \<and>
   cachedSymbols (fst (run now (steps @ [Refresh x]))) =
       (case FetchPerpetualSymbols x of
          Inr syms \<Rightarrow> if syms = [] then cachedSymbols (fst (run now steps)) else syms
        | Inl err \<Rightarrow> cachedSymbols (fst (run now steps)))"
proof (intro conjI)
  show "\<forall>l \<in> set (symbol_writes (writes (snd (run now steps)))). l \<noteq> []"
    using refresh_inv_run [of now steps] by (auto simp: refresh_inv_def)
  show "cachedSymbols (fst (run now steps)) =
     (if fetched_universes steps = [] then [] else last (fetched_universes steps))"
    by (rule fallback_is_last_fetched)
  obtain a w where st: "run now steps = (a, w)" by (cases "run now steps")
  show "writes (snd (run now (steps @ [Refresh x]))) =
     writes (snd (run now steps)) @
       (case FetchPerpetualSymbols x of
          Inr syms \<Rightarrow> if syms = [] then [] else [WroteSymbols syms]
        | Inl err \<Rightarrow>
            if cachedSymbols (fst (run now steps)) = [] then []
            else [WroteSymbols (cachedSymbols (fst (run now steps)))])"
    by (cases "FetchPerpetualSymbols x")
       (simp_all add: run_snoc st fetchSymbols_failure fetchSymbols_success)
  show "cachedSymbols (fst (run now (steps @ [Refresh x]))) =
       (case FetchPerpetualSymbols x of
          Inr syms \<Rightarrow> if syms = [] then cachedSymbols (fst (run now steps)) else syms
        | Inl err \<Rightarrow> cachedSymbols (fst (run now steps)))"
    by (cases "FetchPerpetualSymbols x")
       (simp_all add: run_snoc st fetchSymbols_failure fetchSymbols_success)
qed

theorem identifier_refresh_invariant_witness:
  "symbol_writes (writes (snd (run int
      [Refresh (Delivered \<lparr>Universe = []\<rparr>),
       Refresh (Delivered \<lparr>Universe = [\<lparr>Name = ''BTC'', IsDelisted = False\<rparr>]\<rparr>),
       SeriesWrite ''BTC'' [],
       Refresh (BadStatus 500 ''down'')]))) = [[''BTC''], [''BTC'']] \<and>
   cachedSymbols (fst (run int
      [Refresh (Delivered \<lparr>Universe = []\<rparr>),
       Refresh (Delivered \<lparr>Universe = [\<lparr>Name = ''BTC'', IsDelisted = False\<rparr>]\<rparr>),
       SeriesWrite ''BTC'' [],
       Refresh (BadStatus 500 ''down'')])) = [''BTC''] \<and>
   fetched_universes
      [Refresh (Delivered \<lparr>Universe = []\<rparr>),
       Refresh (Delivered \<lparr>Universe = [\<lparr>Name = ''BTC'', IsDelisted = False\<rparr>]\<rparr>),
       SeriesWrite ''BTC'' [],
       Refresh (BadStatus 500 ''down'')] = [[''BTC'']]"
  using identifier_refresh_invariant [of int
      "[Refresh (Delivered \<lparr>Universe = []\<rparr>),
       Refresh (Delivered \<lparr>Universe = [\<lparr>Name = ''BTC'', IsDelisted = False\<rparr>]\<rparr>),
       SeriesWrite ''BTC'' [],
       Refresh (BadStatus 500 ''down'')]" "DoFailed ''timeout''"]
  by (simp add: run_def fetchSymbols_def FetchPerpetualSymbols_def SetSymbols_def Set_def
      NewSymbolFetcherActor_def new_world_def NewCache_def symbol_writes_def)

text \<open>
  Claim C4, as amended. A refresh whose fetch fails, after any history: with a non-empty
  fallback the fallback is written into the cache, which leaves the identifier list as it
  was (it already was the fallback), leaves the series data and its timestamp alone and
  sets the identifier timestamp to the time of the write; with an empty fallback nothing
  changes at all, neither the cache nor the clock nor the write log.
\<close>

theorem fallback_write_on_failure:
  "FetchPerpetualSymbols x = Inl err \<Longrightarrow>
   (cachedSymbols (fst (run now steps)) \<noteq> [] \<longrightarrow>
      symbols (cache (snd (run now (steps @ [Refresh x])))) = cachedSymbols (fst (run now steps)) \<and>
      symbols (cache (snd (run now (steps @ [Refresh x])))) = symbols (cache (snd (run now steps))) \<and>
      symbolUpdate (cache (snd (run now (steps @ [Refresh x])))) = now (clock (snd (run now steps))) \<and>
      data (cache (snd (run now (steps @ [Refresh x])))) = data (cache (snd (run now steps))) \<and>
      lastUpdate (cache (snd (run now (steps @ [Refresh x])))) = lastUpdate (cache (snd (run now steps))) \<and>
      writes (snd (run now (steps @ [Refresh x]))) =
        writes (snd (run now steps)) @ [WroteSymbols (cachedSymbols (fst (run now steps)))] \<and>
      fst (run now (steps @ [Refresh x])) = fst (run now steps)) \<and>
   (cachedSymbols (fst (run now steps)) = [] \<longrightarrow>
      run now (steps @ [Refresh x]) = run now steps)"
proof -
  assume f: "FetchPerpetualSymbols x = Inl err"
  obtain a w where st: "run now steps = (a, w)" by (cases "run now steps")
  have inv: "symbols (cache w) = cachedSymbols a"
    using refresh_inv_run [of now steps] by (simp add: refresh_inv_def st)
  show ?thesis
    using f inv by (simp add: run_snoc st fetchSymbols_failure)
qed

theorem fallback_write_on_failure_witness:
  "FetchPerpetualSymbols (DoFailed ''timeout'') = Inl (RequestFailed ''timeout'') \<and>
   cachedSymbols (fst (run int [Refresh (Delivered \<lparr>Universe = [\<lparr>Name = ''BTC'', IsDelisted = False\<rparr>]\<rparr>)])) = [''BTC''] \<and>
   symbols (cache (snd (run int [Refresh (Delivered \<lparr>Universe = [\<lparr>Name = ''BTC'', IsDelisted = False\<rparr>]\<rparr>),
      Refresh (DoFailed ''timeout'')]))) = [''BTC''] \<and>
   writes (snd (run int [Refresh (Delivered \<lparr>Universe = [\<lparr>Name = ''BTC'', IsDelisted = False\<rparr>]\<rparr>),
      Refresh (DoFailed ''timeout'')])) = [WroteSymbols [''BTC''], WroteSymbols [''BTC'']] \<and>
   cachedSymbols (fst (run int [])) = [] \<and>
   run int ([] @ [Refresh (DoFailed ''timeout'')]) = run int []"
  using fallback_write_on_failure [of "DoFailed ''timeout''" "RequestFailed ''timeout''" int
      "[Refresh (Delivered \<lparr>Universe = [\<lparr>Name = ''BTC'', IsDelisted = False\<rparr>]\<rparr>)]"]
    fallback_write_on_failure [of "DoFailed ''timeout''" "RequestFailed ''timeout''" int "[]"]
  by (simp add: run_def fetchSymbols_def FetchPerpetualSymbols_def SetSymbols_def
      NewSymbolFetcherActor_def new_world_def NewCache_def)

text \<open>
  Claim C4 as stated fails for the timestamp that belongs to the identifier set: the
  failed refresh with a fallback moves it from the first clock reading to the second.
\<close>

theorem fallback_write_moves_timestamp:
  "FetchPerpetualSymbols (DoFailed ''timeout'') = Inl (RequestFailed ''timeout'') \<and>
   cachedSymbols (fst (run int [Refresh (Delivered \<lparr>Universe = [\<lparr>Name = ''BTC'', IsDelisted = False\<rparr>]\<rparr>)])) = [''BTC''] \<and>
   symbolUpdate (cache (snd (run int [Refresh (Delivered \<lparr>Universe = [\<lparr>Name = ''BTC'', IsDelisted = False\<rparr>]\<rparr>)]))) = 0 \<and>
   symbolUpdate (cache (snd (run int [Refresh (Delivered \<lparr>Universe = [\<lparr>Name = ''BTC'', IsDelisted = False\<rparr>]\<rparr>),
      Refresh (DoFailed ''timeout'')]))) = 1"
  by (simp add: run_def fetchSymbols_def FetchPerpetualSymbols_def SetSymbols_def
      NewSymbolFetcherActor_def new_world_def NewCache_def)

section \<open>Batch refresh: properties\<close>

declare chunks.simps [simp del]
declare batch_loop.simps [simp del]

lemma chunks_Nil [simp]: "chunks B [] = []"
  by (simp add: chunks.simps)

lemma chunks_step: "0 < B \<Longrightarrow> xs \<noteq> [] \<Longrightarrow> chunks B xs = take B xs # chunks B (drop B xs)"
  by (subst chunks.simps) simp

lemma concat_chunks: "0 < B \<Longrightarrow> concat (chunks B xs) = xs"
proof (induction B xs rule: chunks.induct)
  case (1 B xs)
  show ?case
  proof (cases "xs = []")
    case True
    then show ?thesis by simp
  next
    case False
    with 1 show ?thesis by (simp add: chunks_step)
  qed
qed

lemma ceil_div_step:
  fixes n B :: nat
  assumes "0 < B" "0 < n"
  shows "(n + B - 1) div B = Suc ((n - B + B - 1) div B)"
proof (cases "B \<le> n")
  case True
  then have a: "n + B - 1 = (n - 1) + B" and b: "n - B + B - 1 = n - 1" using assms by simp_all
  have "((n - 1) + B) div B = (n - 1) div B + 1"
    using assms(1) div_add_self2 [of B "n - 1"] by simp
  then have "((n - 1) + B) div B = Suc ((n - 1) div B)" by simp
  then show ?thesis unfolding a b .
next
  case False
  then have "n - B = 0" "n + B - 1 < 2 * B" "B \<le> n + B - 1" using assms by simp_all
  then have "(n + B - 1) div B = 1"
    using assms by (intro div_nat_eqI) simp_all
  moreover have "(n - B + B - 1) div B = 0" using assms False by simp
  ultimately show ?thesis by simp
qed

lemma length_chunks: "0 < B \<Longrightarrow> length (chunks B xs) = (length xs + B - 1) div B"
proof (induction B xs rule: chunks.induct)
  case (1 B xs)
  show ?case
  proof (cases "xs = []")
    case True
    then show ?thesis using 1(2) by simp
  next
    case False
    have "length (chunks B xs) = Suc (length (chunks B (drop B xs)))"
      using False 1(2) by (simp add: chunks_step)
    also have "\<dots> = Suc ((length xs - B + B - 1) div B)"
      using 1 False by simp
    also have "\<dots> = (length xs + B - 1) div B"
      using ceil_div_step [of B "length xs"] 1(2) False by simp
    finally show ?thesis .
  qed
qed

lemma chunks_sizes:
  "0 < B \<Longrightarrow> c \<in> set (chunks B xs) \<Longrightarrow> 0 < length c \<and> length c \<le> B"
proof (induction B xs rule: chunks.induct)
  case (1 B xs)
  show ?case
  proof (cases "xs = []")
    case True
    with 1(3) show ?thesis by simp
  next
    case False
    with 1 show ?thesis by (auto simp: chunks_step)
  qed
qed

lemma chunks_full:
  "0 < B \<Longrightarrow> Suc i < length (chunks B xs) \<Longrightarrow> length (chunks B xs ! i) = B"
proof (induction B xs arbitrary: i rule: chunks.induct)
  case (1 B xs)
  show ?case
  proof (cases "xs = []")
    case True
    with 1(3) show ?thesis by simp
  next
    case False
    then have st: "chunks B xs = take B xs # chunks B (drop B xs)"
      using 1(2) by (simp add: chunks_step)
    show ?thesis
    proof (cases i)
      case 0
      have "chunks B (drop B xs) \<noteq> []" using 1(3) st by auto
      then have "drop B xs \<noteq> []" by auto
      then have "B \<le> length xs" by simp
      then show ?thesis using 0 st by simp
    next
      case (Suc j)
      have "Suc j < length (chunks B (drop B xs))" using 1(3) st Suc by simp
      then have "length (chunks B (drop B xs) ! j) = B"
        using 1(1) [of j] 1(2) False by simp
      then show ?thesis using Suc st by simp
    qed
  qed
qed

lemma series_Set:
  "series (cache (Set now w k v)) k' = (if k' = k then Some v else series (cache w) k')"
  by (simp add: series_def)

lemma collect_step:
  "collect now (r # rs) (w, n) =
     collect now rs (Set now w (res_symbol r) (stored r), n + (if res_err r = None then 1 else 0))"
  by (simp add: stored_def)

lemma collect_count:
  "snd (collect now rs (w, n)) = n + int (length (filter (\<lambda>r. res_err r = None) rs))"
  by (induction rs arbitrary: w n) (simp_all only: collect.simps(1) collect_step, simp_all)

lemma collect_writes:
  "writes (fst (collect now rs (w, n))) =
     writes w @ map (\<lambda>r. WroteSeries (res_symbol r) (stored r)) rs"
  by (induction rs arbitrary: w n) (simp_all only: collect.simps(1) collect_step, simp_all)

lemma collect_symbols:
  "symbols (cache (fst (collect now rs (w, n)))) = symbols (cache w) \<and>
   symbolUpdate (cache (fst (collect now rs (w, n)))) = symbolUpdate (cache w)"
  by (induction rs arbitrary: w n) (simp_all only: collect.simps(1) collect_step, simp_all)

lemma collect_series:
  "(\<forall>r \<in> set rs. res_symbol r = k \<longrightarrow> stored r = v) \<Longrightarrow>
     series (cache (fst (collect now rs (w, n)))) k =
       (if k \<in> res_symbol ` set rs then Some v else series (cache w) k)"
proof (induction rs arbitrary: w n)
  case Nil
  show ?case by simp
next
  case (Cons r rs)
  have "series (cache (fst (collect now (r # rs) (w, n)))) k =
      (if k \<in> res_symbol ` set rs then Some v
       else series (cache (Set now w (res_symbol r) (stored r))) k)"
    unfolding collect_step using Cons.prems by (intro Cons.IH) simp
  then show ?case using Cons.prems by (auto simp: series_Set)
qed

lemma batch_loop_exit:
  "\<not> batchIdx < int (length syms) \<Longrightarrow>
     batch_loop now net arrival a syms s e tot batchIdx (w, n, tr) = (w, Completed n, tr)"
  by (subst batch_loop.simps) simp

lemma sdiv_nat: "int i sdiv int B = int (i div B)"
  by (simp add: signed_divide_int_def sgn_if zdiv_int)

lemma batch_slice:
  "0 < B \<Longrightarrow> i < length syms \<Longrightarrow>
     take (nat ((if int i + int B > int (length syms) then int (length syms) else int i + int B) - int i))
       (drop i syms) = take B (drop i syms)"
proof (cases "int i + int B > int (length syms)")
  case True
  then have "length syms - i \<le> B" by linarith
  then show ?thesis using True by (simp add: nat_diff_distrib')
next
  case False
  have "nat (int i + int B - int i) = B" by simp
  then show ?thesis using False by simp
qed

lemma batch_loop_step:
  assumes "batchSize a = int B" "0 < B" "i < length syms"
  shows "batch_loop now net arrival a syms s e tot (int i) (w, n, tr) =
     batch_loop now net arrival a syms s e tot (int (i + B))
       (fst (collect now (arrival (i div B + 1)
               (map fst (map (fetch_task net a s e) (enumerate i (take B (drop i syms)))))) (w, n)),
        snd (collect now (arrival (i div B + 1)
               (map fst (map (fetch_task net a s e) (enumerate i (take B (drop i syms)))))) (w, n)),
        tr @ [Batch (int (i div B) + 1) tot
                (zip (take B (drop i syms))
                   (map snd (map (fetch_task net a s e) (enumerate i (take B (drop i syms))))))]
           @ (if int (i div B) + 1 < tot then [Paused (batchDelay a)] else []))"
proof -
  have n: "nat (int (i div B) + 1) = i div B + 1" by simp
  show ?thesis
    apply (subst batch_loop.simps)
    using assms
    apply (simp only: Let_def sdiv_nat batch_slice n)
    apply (simp add: nat_add_distrib)
    done
qed

lemma res_symbol_task [simp]: "res_symbol (fst (fetch_task net a s e (i, k))) = k"
  by (simp add: fetch_task_def Let_def split: sum.splits)

lemma enumerate_batch:
  "enumerate i (take B (drop i syms)) =
     map (\<lambda>j. (j, syms ! j)) [i ..< min (i + B) (length syms)]"
proof (rule nth_equalityI)
  show "length (enumerate i (take B (drop i syms))) =
      length (map (\<lambda>j. (j, syms ! j)) [i ..< min (i + B) (length syms)])"
    by auto
next
  fix m
  assume "m < length (enumerate i (take B (drop i syms)))"
  then have m: "m < B" "m < length syms - i" by simp_all
  then have lt: "i + m < min (i + B) (length syms)" by arith
  then have "[i ..< min (i + B) (length syms)] ! m = i + m" by (rule nth_upt)
  moreover have "m < length [i ..< min (i + B) (length syms)]"
    unfolding length_upt using lt by arith
  ultimately show "enumerate i (take B (drop i syms)) ! m =
      map (\<lambda>j. (j, syms ! j)) [i ..< min (i + B) (length syms)] ! m"
    using m by (simp add: nth_enumerate_eq del: length_upt)
qed

lemma batch_results:
  "map fst (map (fetch_task net a s e) (enumerate i (take B (drop i syms)))) =
     map (\<lambda>j. fst (fetch_task net a s e (j, syms ! j))) [i ..< min (i + B) (length syms)]"
  by (simp add: enumerate_batch comp_def)

lemma upt_batch_split:
  "0 < B \<Longrightarrow> i < n \<Longrightarrow> [i ..< n] = [i ..< min (i + B) n] @ [i + B ..< n]"
proof (cases "i + B \<le> n")
  case True
  assume "i < n"
  have "[i ..< (i + B) + (n - (i + B))] = [i ..< i + B] @ [i + B ..< (i + B) + (n - (i + B))]"
    by (rule upt_add_eq_append) simp
  then have "[i ..< n] = [i ..< i + B] @ [i + B ..< n]"
    using True by simp
  then show ?thesis using True by (simp add: min_def)
next
  case False
  then show ?thesis by (simp add: min_def)
qed

text \<open>An induction rule that follows the loop, batch by batch.\<close>

lemma batch_loop_rule:
  assumes B: "batchSize a = int B" "0 < B"
    and exit: "\<And>i w n tr. length syms \<le> i \<Longrightarrow> P i w n tr (w, Completed n, tr)"
    and step: "\<And>i w n tr res. i < length syms \<Longrightarrow>
        P (i + B)
          (fst (collect now (arrival (i div B + 1)
             (map (\<lambda>j. fst (fetch_task net a s e (j, syms ! j))) [i ..< min (i + B) (length syms)])) (w, n)))
          (snd (collect now (arrival (i div B + 1)
             (map (\<lambda>j. fst (fetch_task net a s e (j, syms ! j))) [i ..< min (i + B) (length syms)])) (w, n)))
          (tr @ [Batch (int (i div B) + 1) tot
                (zip (take B (drop i syms))
                   (map snd (map (fetch_task net a s e) (enumerate i (take B (drop i syms))))))]
              @ (if int (i div B) + 1 < tot then [Paused (batchDelay a)] else []))
          res \<Longrightarrow> P i w n tr res"
  shows "P i w n tr (batch_loop now net arrival a syms s e tot (int i) (w, n, tr))"
proof (induction "length syms - i" arbitrary: i w n tr rule: less_induct)
  case less
  show ?case
  proof (cases "i < length syms")
    case False
    then show ?thesis by (simp add: batch_loop_exit exit)
  next
    case True
    have "length syms - (i + B) < length syms - i" using True B(2) by simp
    then show ?thesis
      unfolding batch_loop_step [OF B True] batch_results
      by (intro step [OF True] less)
  qed
qed

lemma batch_loop_status:
  assumes B: "batchSize a = int B" "0 < B"
    and perm: "\<And>m rs. mset (arrival m rs) = mset rs"
  shows "fst (snd (batch_loop now net arrival a syms s e tot (int i) (w, n, tr))) =
     Completed (n + int (length (filter (\<lambda>j. res_err (fst (fetch_task net a s e (j, syms ! j))) = None)
        [i ..< length syms])))"
proof (rule batch_loop_rule [OF B, where P = "\<lambda>i w n tr res. fst (snd res) =
     Completed (n + int (length (filter (\<lambda>j. res_err (fst (fetch_task net a s e (j, syms ! j))) = None)
        [i ..< length syms])))"], goal_cases)
  case (1 i w n tr)
  then show ?case by simp
next
  case (2 i w n tr res)
  let ?rs = "map (\<lambda>j. fst (fetch_task net a s e (j, syms ! j))) [i ..< min (i + B) (length syms)]"
  have "mset (filter (\<lambda>r. res_err r = None) (arrival (i div B + 1) ?rs)) =
      mset (filter (\<lambda>r. res_err r = None) ?rs)"
    unfolding mset_filter perm [of "i div B + 1" ?rs] ..
  then have "length (filter (\<lambda>r. res_err r = None) (arrival (i div B + 1) ?rs)) =
      length (filter (\<lambda>r. res_err r = None) ?rs)"
    by (rule mset_eq_length)
  also have "\<dots> = length (filter (\<lambda>j. res_err (fst (fetch_task net a s e (j, syms ! j))) = None)
      [i ..< min (i + B) (length syms)])"
    by (simp add: filter_map comp_def)
  finally have c: "length (filter (\<lambda>r. res_err r = None) (arrival (i div B + 1) ?rs)) =
     length (filter (\<lambda>j. res_err (fst (fetch_task net a s e (j, syms ! j))) = None)
      [i ..< min (i + B) (length syms)])" .
  show ?case
    using 2(2) unfolding collect_count c
    by (subst upt_batch_split [OF B(2) 2(1)]) simp
qed

lemma batch_loop_batches:
  assumes B: "batchSize a = int B" "0 < B"
  shows "batches_of (snd (snd (batch_loop now net arrival a syms s e tot (int i) (w, n, tr)))) =
     batches_of tr @ chunks B (drop i syms)"
proof (rule batch_loop_rule [OF B, where P = "\<lambda>i w n tr res.
     batches_of (snd (snd res)) = batches_of tr @ chunks B (drop i syms)"], goal_cases)
  case (1 i w n tr)
  then show ?case by simp
next
  case (2 i w n tr res)
  have app: "batches_of (xs @ ys) = batches_of xs @ batches_of ys" for xs ys
    by (induction xs rule: batches_of.induct) simp_all
  have ch: "chunks B (drop i syms) = take B (drop i syms) # chunks B (drop (i + B) syms)"
    using 2(1) B(2) by (simp add: chunks_step add.commute)
  show ?case using 2(2) by (simp add: app ch)
qed

lemma batch_loop_writes:
  assumes B: "batchSize a = int B" "0 < B"
    and perm: "\<And>m rs. mset (arrival m rs) = mset rs"
  shows "mset (writes (fst (batch_loop now net arrival a syms s e tot (int i) (w, n, tr)))) =
     mset (writes w) +
     mset (map (\<lambda>j. WroteSeries (syms ! j) (stored (fst (fetch_task net a s e (j, syms ! j)))))
        [i ..< length syms])"
proof (rule batch_loop_rule [OF B, where P = "\<lambda>i w n tr res. mset (writes (fst res)) =
     mset (writes w) +
     mset (map (\<lambda>j. WroteSeries (syms ! j) (stored (fst (fetch_task net a s e (j, syms ! j)))))
        [i ..< length syms])"], goal_cases)
  case (1 i w n tr)
  then show ?case by simp
next
  case (2 i w n tr res)
  let ?rs = "map (\<lambda>j. fst (fetch_task net a s e (j, syms ! j))) [i ..< min (i + B) (length syms)]"
  let ?wr = "\<lambda>r. WroteSeries (res_symbol r) (stored r)"
  have "mset (map ?wr (arrival (i div B + 1) ?rs)) = mset (map ?wr ?rs)"
    unfolding mset_map perm [of "i div B + 1" ?rs] ..
  also have "\<dots> = mset (map (\<lambda>j. WroteSeries (syms ! j) (stored (fst (fetch_task net a s e (j, syms ! j)))))
        [i ..< min (i + B) (length syms)])"
    by (simp add: comp_def)
  finally have c: "mset (map ?wr (arrival (i div B + 1) ?rs)) =
     mset (map (\<lambda>j. WroteSeries (syms ! j) (stored (fst (fetch_task net a s e (j, syms ! j)))))
        [i ..< min (i + B) (length syms)])" .
  let ?f = "\<lambda>j. WroteSeries (syms ! j) (stored (fst (fetch_task net a s e (j, syms ! j))))"
  have sp: "mset (map ?f [i ..< length syms]) =
      mset (map ?f [i ..< min (i + B) (length syms)]) + mset (map ?f [i + B ..< length syms])"
    by (subst upt_batch_split [OF B(2) 2(1)]) (simp only: map_append mset_append)
  have "mset (writes (fst res)) =
      mset (writes w @ map ?wr (arrival (i div B + 1) ?rs)) + mset (map ?f [i + B ..< length syms])"
    using 2(2) unfolding collect_writes .
  also have "\<dots> = mset (writes w) + mset (map ?f [i ..< min (i + B) (length syms)])
      + mset (map ?f [i + B ..< length syms])"
    by (simp only: mset_append c)
  also have "\<dots> = mset (writes w) + mset (map ?f [i ..< length syms])"
    by (simp only: sp add.assoc)
  finally show ?case .
qed

lemma batch_loop_series:
  assumes B: "batchSize a = int B" "0 < B"
    and perm: "\<And>m rs. mset (arrival m rs) = mset rs"
    and same: "\<And>j. j < length syms \<Longrightarrow> syms ! j = k \<Longrightarrow>
        stored (fst (fetch_task net a s e (j, syms ! j))) = v"
  shows "series (cache (fst (batch_loop now net arrival a syms s e tot (int i) (w, n, tr)))) k =
     (if k \<in> set (drop i syms) then Some v else series (cache w) k)"
proof (rule batch_loop_rule [OF B, where P = "\<lambda>i w n tr res. series (cache (fst res)) k =
     (if k \<in> set (drop i syms) then Some v else series (cache w) k)"], goal_cases)
  case (1 i w n tr)
  then show ?case by simp
next
  case (2 i w n tr res)
  let ?rs = "map (\<lambda>j. fst (fetch_task net a s e (j, syms ! j))) [i ..< min (i + B) (length syms)]"
  have set_eq: "set (arrival (i div B + 1) ?rs) = set ?rs"
    using perm [of "i div B + 1" ?rs] by (rule mset_eq_setD)
  have "\<forall>r \<in> set (arrival (i div B + 1) ?rs). res_symbol r = k \<longrightarrow> stored r = v"
    unfolding set_eq using same by auto
  then have c: "series (cache (fst (collect now (arrival (i div B + 1) ?rs) (w, n)))) k =
      (if k \<in> res_symbol ` set ?rs then Some v else series (cache w) k)"
    unfolding set_eq [symmetric] by (rule collect_series)
  have names: "res_symbol ` set ?rs = set (take B (drop i syms))"
  proof -
    have "map res_symbol ?rs = map (\<lambda>j. syms ! j) [i ..< min (i + B) (length syms)]"
      by (simp add: comp_def)
    also have "\<dots> = map snd (enumerate i (take B (drop i syms)))"
      by (simp add: enumerate_batch comp_def)
    also have "\<dots> = take B (drop i syms)" by simp
    finally have "set (map res_symbol ?rs) = set (take B (drop i syms))" by (rule arg_cong)
    then show ?thesis unfolding set_map .
  qed
  have "drop i syms = take B (drop i syms) @ drop B (drop i syms)"
    by (rule append_take_drop_id [symmetric])
  then have "set (drop i syms) = set (take B (drop i syms)) \<union> set (drop B (drop i syms))"
    by (metis set_append)
  then have split: "set (drop i syms) = set (take B (drop i syms)) \<union> set (drop (i + B) syms)"
    by (simp add: add.commute)
  show ?case
  proof (cases "k \<in> set (take B (drop i syms))")
    case True
    then show ?thesis using 2(2) unfolding c names split by simp
  next
    case False
    then show ?thesis using 2(2) unfolding c names split by simp
  qed
qed

lemma batch_loop_symbols:
  assumes B: "batchSize a = int B" "0 < B"
  shows "symbols (cache (fst (batch_loop now net arrival a syms s e tot (int i) (w, n, tr)))) =
     symbols (cache w)"
proof (rule batch_loop_rule [OF B, where P = "\<lambda>i w n tr res.
     symbols (cache (fst res)) = symbols (cache w)"], goal_cases)
  case (1 i w n tr)
  then show ?case by simp
next
  case (2 i w n tr res)
  then show ?case by (simp add: collect_symbols)
qed

lemma GetSymbols_eq [simp]: "GetSymbols c = symbols c"
  by (simp add: GetSymbols_def)

lemma ceil_bounds:
  fixes n B :: nat
  assumes "0 < B" "0 < n"
  shows "((n + B - 1) div B - 1) * B < n \<and> n \<le> (n + B - 1) div B * B"
proof -
  define q where "q = (n + B - 1) div B"
  define r where "r = (n + B - 1) mod B"
  have eq: "n + B - 1 = q * B + r" by (simp add: q_def r_def)
  have r: "r < B" using assms(1) by (simp add: r_def)
  have "B \<le> n + B - 1" using assms by simp
  then have "1 \<le> q" using assms(1) by (simp add: q_def div_greater_zero_iff Suc_le_eq)
  then obtain p where p: "q = Suc p" by (cases q) simp_all
  have "p * B + B + r = n + B - 1" using eq p by simp
  then have "p * B < n" using assms r by linarith
  moreover have "n \<le> q * B" using eq r assms by linarith
  ultimately show ?thesis unfolding q_def [symmetric] using p by simp
qed

lemma fetchAllCandles_loop:
  assumes "symbols (cache w) = syms" "syms \<noteq> []" "batchSize a = int B" "0 < B"
  shows "fetchAllCandles now net arrival a w =
     batch_loop now net arrival a syms (fst (window now a w)) (snd (window now a w))
       (int ((length syms + B - 1) div B)) (int 0) (w\<lparr>clock := clock w + 2\<rparr>, 0, [])"
proof -
  have "0 < length syms" using assms(2) by simp
  then have "int (length syms) + int B - 1 = int (length syms + B - 1)" by linarith
  then have "(int (length syms) + int B - 1) sdiv int B = int ((length syms + B - 1) div B)"
    by (simp only: sdiv_nat)
  then show ?thesis
    using assms by (simp add: fetchAllCandles_def Let_def window_def)
qed

lemma stored_task:
  "stored (fst (fetch_task net a s e (i, k))) =
     (case fst (FetchCandlesWithRetry (net i k (candleInterval a) s e) 3) of
        Inl err \<Rightarrow> [] | Inr cs \<Rightarrow> cs)"
  by (simp add: fetch_task_def stored_def Let_def split: sum.splits)

lemma res_err_task:
  "res_err (fst (fetch_task net a s e (i, k))) = None \<longleftrightarrow>
     \<not> isl (fst (FetchCandlesWithRetry (net i k (candleInterval a) s e) 3))"
  by (simp add: fetch_task_def Let_def split: sum.splits)

lemma series_Get:
  "series c k = Some v \<Longrightarrow> snd (Get c k) \<and> Candles (fst (Get c k)) = v \<and> Symbol (fst (Get c k)) = Symbol (the (data c k))"
  by (auto simp: series_def Get_def split: option.splits)

text \<open>
  Claim C8. A cycle that reads an empty identifier list ends at once: the world is
  returned as it was (cache, clock readings and write log), the trace has no batch, so no
  fetch was launched, and the status is \<open>Skipped\<close>.
\<close>

theorem empty_identifier_set_skips:
  "GetSymbols (cache w) = [] \<Longrightarrow> fetchAllCandles now net arrival a w = (w, Skipped, [])"
  by (simp add: fetchAllCandles_def)

theorem empty_identifier_set_skips_witness:
  "GetSymbols (cache new_world) = [] \<and>
   fetchAllCandles int (\<lambda>i sym interval s e k. Inr []) (\<lambda>m. rev) (NewCandleFetcherActor ''1h'' 7) new_world =
     (new_world, Skipped, [])"
  using empty_identifier_set_skips [of new_world int "\<lambda>i sym interval s e k. Inr []" "\<lambda>m. rev"
      "NewCandleFetcherActor ''1h'' 7"]
  by (simp add: GetSymbols_def new_world_def NewCache_def)

text \<open>
  Claim C3. For a non-empty identifier list of length \<open>N\<close> and a batch size \<open>B > 0\<close> the
  batches of the cycle are \<open>(N + B - 1) div B\<close> many, which is the least \<open>n\<close> with
  \<open>N \<le> n * B\<close>, that is the ceiling of \<open>N / B\<close>; concatenated in order they give back the
  identifier list, so every position of the list lies in exactly one batch and the order
  is kept; every batch but the last has \<open>B\<close> elements and the last has between 1 and \<open>B\<close>.
\<close>

theorem batch_partition:
  assumes "GetSymbols (cache w) = syms" "syms \<noteq> []" "batchSize a = int B" "0 < B"
  shows "length (batches_of (snd (snd (fetchAllCandles now net arrival a w)))) = (length syms + B - 1) div B \<and>
    (length (batches_of (snd (snd (fetchAllCandles now net arrival a w)))) - 1) * B < length syms \<and>
    length syms \<le> length (batches_of (snd (snd (fetchAllCandles now net arrival a w)))) * B \<and>
    concat (batches_of (snd (snd (fetchAllCandles now net arrival a w)))) = syms \<and>
    (\<forall>i. Suc i < length (batches_of (snd (snd (fetchAllCandles now net arrival a w)))) \<longrightarrow>
       length (batches_of (snd (snd (fetchAllCandles now net arrival a w))) ! i) = B) \<and>
    0 < length (last (batches_of (snd (snd (fetchAllCandles now net arrival a w))))) \<and>
    length (last (batches_of (snd (snd (fetchAllCandles now net arrival a w))))) \<le> B \<and>
    batches_of (snd (snd (fetchAllCandles now net arrival a w))) = chunks B syms"
proof -
  have s: "symbols (cache w) = syms" using assms(1) by simp
  have bs: "batches_of (snd (snd (fetchAllCandles now net arrival a w))) = chunks B syms"
    unfolding fetchAllCandles_loop [OF s assms(2,3,4)] batch_loop_batches [OF assms(3,4)]
    by simp
  have n: "0 < length syms" using assms(2) by simp
  have len: "length (chunks B syms) = (length syms + B - 1) div B"
    using assms(4) by (rule length_chunks)
  have ne: "chunks B syms \<noteq> []" using assms(2,4) by (simp add: chunks_step)
  then have "last (chunks B syms) \<in> set (chunks B syms)" by (rule last_in_set)
  then have lst: "0 < length (last (chunks B syms)) \<and> length (last (chunks B syms)) \<le> B"
    using assms(4) by (intro chunks_sizes)
  show ?thesis
    unfolding bs
    using len ceil_bounds [OF assms(4) n] concat_chunks [OF assms(4), of syms]
      chunks_full [OF assms(4), of _ syms] lst
    by simp
qed

theorem batch_partition_witness:
  "batches_of (snd (snd (fetchAllCandles int (\<lambda>i sym interval s e k. Inr []) (\<lambda>m. rev)
      \<lparr>candleInterval = ''1h'', candleDays = 7, batchSize = 2, batchDelay = 0\<rparr>
      (SetSymbols int new_world [''A'', ''B'', ''C''])))) = [[''A'', ''B''], [''C'']] \<and>
   (3 + 2 - 1) div 2 = (2::nat)"
  using batch_partition [of "SetSymbols int new_world [''A'', ''B'', ''C'']" "[''A'', ''B'', ''C'']"
      "\<lparr>candleInterval = ''1h'', candleDays = 7, batchSize = 2, batchDelay = 0\<rparr>" 2
      int "\<lambda>i sym interval s e k. Inr []" "\<lambda>m. rev"]
  by (simp add: GetSymbols_def SetSymbols_def new_world_def NewCache_def chunks.simps)

text \<open>
  Claim C1. In a cycle over a non-empty identifier list, whatever the order in which the
  results of a batch arrive: the cycle makes one series write per launched identifier,
  with no bars when its retry wrapper ended in an error and with the returned bars
  otherwise; the success count is the number of launches whose wrapper succeeded; and
  afterwards a key whose launches all failed is found with an empty series, and a key
  whose launches all returned \<open>bars\<close> is found with exactly \<open>bars\<close>.
\<close>

theorem failure_to_empty:
  fixes now net arrival a w syms
  defines "final \<equiv> fetchAllCandles now net arrival a w"
    and "outcome \<equiv> retry_outcome now net a w syms"
  assumes "GetSymbols (cache w) = syms" "syms \<noteq> []" "batchSize a = int B" "0 < B"
    and "\<forall>m rs. mset (arrival m rs) = mset rs"
  shows "mset (writes (fst final)) =
       mset (writes w) +
       mset (map (\<lambda>i. WroteSeries (syms ! i) (case outcome i of Inl e \<Rightarrow> [] | Inr cs \<Rightarrow> cs))
              [0 ..< length syms]) \<and>
     fst (snd final) = Completed (int (length (filter (\<lambda>i. \<not> isl (outcome i)) [0 ..< length syms]))) \<and>
     (\<forall>x \<in> set syms. (\<forall>i < length syms. syms ! i = x \<longrightarrow> isl (outcome i)) \<longrightarrow>
        snd (Get (cache (fst final)) x) \<and> Candles (fst (Get (cache (fst final)) x)) = []) \<and>
     (\<forall>y \<in> set syms. \<forall>bars. (\<forall>i < length syms. syms ! i = y \<longrightarrow> outcome i = Inr bars) \<longrightarrow>
        snd (Get (cache (fst final)) y) \<and> Candles (fst (Get (cache (fst final)) y)) = bars)"
proof -
  let ?s = "fst (window now a w)" and ?e = "snd (window now a w)"
  let ?w1 = "w\<lparr>clock := clock w + 2\<rparr>"
  have s: "symbols (cache w) = syms" using assms(3) by simp
  have perm: "\<And>m rs. mset (arrival m rs) = mset rs" using assms(7) by simp
  have B: "batchSize a = int B" "0 < B" by fact+
  have fin: "final = batch_loop now net arrival a syms ?s ?e
       (int ((length syms + B - 1) div B)) (int 0) (?w1, 0, [])"
    unfolding final_def by (rule fetchAllCandles_loop [OF s assms(4) B])
  have st: "stored (fst (fetch_task net a ?s ?e (i, syms ! i))) =
      (case outcome i of Inl e \<Rightarrow> [] | Inr cs \<Rightarrow> cs)" for i
    by (simp add: stored_task outcome_def retry_outcome_def)
  have ok: "res_err (fst (fetch_task net a ?s ?e (i, syms ! i))) = None \<longleftrightarrow> \<not> isl (outcome i)" for i
    by (simp add: res_err_task outcome_def retry_outcome_def)
  have wr: "mset (writes (fst final)) =
       mset (writes w) +
       mset (map (\<lambda>i. WroteSeries (syms ! i) (case outcome i of Inl e \<Rightarrow> [] | Inr cs \<Rightarrow> cs))
              [0 ..< length syms])"
    unfolding fin batch_loop_writes [OF B perm] st by simp
  have cnt: "fst (snd final) =
      Completed (int (length (filter (\<lambda>i. \<not> isl (outcome i)) [0 ..< length syms])))"
    unfolding fin batch_loop_status [OF B perm] ok by simp
  have ser: "series (cache (fst final)) k = Some v"
    if k: "k \<in> set syms"
      and v: "\<And>i. i < length syms \<Longrightarrow> syms ! i = k \<Longrightarrow> (case outcome i of Inl e \<Rightarrow> [] | Inr cs \<Rightarrow> cs) = v"
    for k v
  proof -
    have "series (cache (fst final)) k =
        (if k \<in> set (drop 0 syms) then Some v else series (cache ?w1) k)"
      unfolding fin
    proof (rule batch_loop_series [OF B perm])
      fix j
      assume "j < length syms" "syms ! j = k"
      then show "stored (fst (fetch_task net a ?s ?e (j, syms ! j))) = v"
        unfolding st by (rule v)
    qed
    then show ?thesis using k by simp
  qed
  have fail: "snd (Get (cache (fst final)) x) \<and> Candles (fst (Get (cache (fst final)) x)) = []"
    if "x \<in> set syms" and "\<forall>i < length syms. syms ! i = x \<longrightarrow> isl (outcome i)" for x
  proof -
    have "series (cache (fst final)) x = Some []"
      using that by (intro ser) (auto split: sum.splits)
    then show ?thesis by (simp add: series_Get)
  qed
  have succ: "snd (Get (cache (fst final)) y) \<and> Candles (fst (Get (cache (fst final)) y)) = bars"
    if "y \<in> set syms" and "\<forall>i < length syms. syms ! i = y \<longrightarrow> outcome i = Inr bars" for y bars
  proof -
    have "series (cache (fst final)) y = Some bars"
      using that by (intro ser) auto
    then show ?thesis by (simp add: series_Get)
  qed
  show ?thesis
    using wr cnt fail succ by blast
qed

theorem failure_to_empty_witness:
  "snd (Get (cache (fst (fetchAllCandles int
      (\<lambda>i sym interval s e k. if sym = ''X'' then Inl (ApiStatus 429 ''busy'')
         else Inr [\<lparr>Timestamp = 1, Open = 2, High = 3, Low = 1, Close = 2, Volume = 9\<rparr>])
      (\<lambda>m. rev) (NewCandleFetcherActor ''1h'' 7) (SetSymbols int new_world [''X'', ''Y''])))) ''X'') \<and>
   Candles (fst (Get (cache (fst (fetchAllCandles int
      (\<lambda>i sym interval s e k. if sym = ''X'' then Inl (ApiStatus 429 ''busy'')
         else Inr [\<lparr>Timestamp = 1, Open = 2, High = 3, Low = 1, Close = 2, Volume = 9\<rparr>])
      (\<lambda>m. rev) (NewCandleFetcherActor ''1h'' 7) (SetSymbols int new_world [''X'', ''Y''])))) ''X'')) = [] \<and>
   Candles (fst (Get (cache (fst (fetchAllCandles int
      (\<lambda>i sym interval s e k. if sym = ''X'' then Inl (ApiStatus 429 ''busy'')
         else Inr [\<lparr>Timestamp = 1, Open = 2, High = 3, Low = 1, Close = 2, Volume = 9\<rparr>])
      (\<lambda>m. rev) (NewCandleFetcherActor ''1h'' 7) (SetSymbols int new_world [''X'', ''Y''])))) ''Y'')) =
     [\<lparr>Timestamp = 1, Open = 2, High = 3, Low = 1, Close = 2, Volume = 9\<rparr>] \<and>
   fst (snd (fetchAllCandles int
      (\<lambda>i sym interval s e k. if sym = ''X'' then Inl (ApiStatus 429 ''busy'')
         else Inr [\<lparr>Timestamp = 1, Open = 2, High = 3, Low = 1, Close = 2, Volume = 9\<rparr>])
      (\<lambda>m. rev) (NewCandleFetcherActor ''1h'' 7) (SetSymbols int new_world [''X'', ''Y'']))) = Completed 1"
proof -
  let ?net = "\<lambda>(i::nat) (sym::string) (interval::string) (s::int64) (e::int64) (k::nat).
      if sym = ''X'' then Inl (ApiStatus 429 ''busy'')
      else Inr [\<lparr>Timestamp = 1, Open = 2, High = 3, Low = 1, Close = 2, Volume = 9\<rparr>]"
  let ?a = "NewCandleFetcherActor ''1h'' 7"
  let ?w = "SetSymbols int new_world [''X'', ''Y'']"
  have x: "retry_outcome int ?net ?a ?w [''X'', ''Y''] 0 = Inl (RetriesExhausted 3 (Some (ApiStatus 429 ''busy'')))"
    by (simp add: retry_outcome_def FetchCandlesWithRetry_def retry_loop.simps)
  have y: "retry_outcome int ?net ?a ?w [''X'', ''Y''] (Suc 0) =
      Inr [\<lparr>Timestamp = 1, Open = 2, High = 3, Low = 1, Close = 2, Volume = 9\<rparr>]"
    by (simp add: retry_outcome_def FetchCandlesWithRetry_def retry_loop.simps)
  have h: "GetSymbols (cache ?w) = [''X'', ''Y'']" "batchSize ?a = int 10"
    by (simp_all add: GetSymbols_def SetSymbols_def NewCandleFetcherActor_def)
  show ?thesis
    using failure_to_empty [of ?w "[''X'', ''Y'']" ?a 10 "\<lambda>m. rev" int ?net] h x y
    by (simp add: less_Suc_eq numeral_2_eq_2 upt_rec)
qed

section \<open>Candle client: properties\<close>

lemma saveError_keeps: "saveError saved e \<noteq> None"
  by (simp add: saveError_def split: option.splits)

lemma store_int_sticky: "snd st \<noteq> None \<Longrightarrow> snd (store_int upd st v) \<noteq> None"
  by (simp del: not_None_eq add: store_int_def saveError_keeps split: sum.splits option.splits)

lemma store_float_sticky: "snd st \<noteq> None \<Longrightarrow> snd (store_float pf upd st v) \<noteq> None"
  by (simp del: not_None_eq add: store_float_def saveError_keeps split: sum.splits option.splits)

lemma store_member_sticky: "snd st \<noteq> None \<Longrightarrow> snd (store_member pf st m) \<noteq> None"
  by (simp del: not_None_eq add: store_member_def Let_def store_int_sticky store_float_sticky
      split: option.splits field.splits)

lemma members_sticky: "snd st \<noteq> None \<Longrightarrow> snd (foldl (store_member pf) st ms) \<noteq> None"
  by (induction ms arbitrary: st) (simp_all del: not_None_eq add: store_member_sticky)

lemma decode_element_sticky: "saved \<noteq> None \<Longrightarrow> snd (decode_element pf saved j) \<noteq> None"
  by (cases j) (simp_all del: not_None_eq add: decode_element_def members_sticky saveError_keeps)

lemma decode_elements_sticky: "saved \<noteq> None \<Longrightarrow> snd (decode_elements pf saved els) \<noteq> None"
  by (induction els arbitrary: saved) (simp_all del: not_None_eq add: Let_def decode_element_sticky)

lemma length_decode_elements: "length (fst (decode_elements pf saved els)) = length els"
  by (induction els arbitrary: saved) (simp_all add: Let_def)

lemma store_int_ok: "integer_number v \<Longrightarrow> snd (store_int upd st v) = snd st"
  by (cases v) (auto simp: integer_number_def store_int_def decode_int_def)

lemma store_float_ok: "number_string pf v \<Longrightarrow> snd (store_float pf upd st v) = snd st"
  by (cases v) (auto simp: number_string_def store_float_def decode_quoted_float_def is_digit_def
      split: list.splits)

lemma store_member_ok: "string_encoded pf m \<Longrightarrow> snd (store_member pf st m) = snd st"
proof (cases "field_of_key (fst m)")
  case None
  then show ?thesis by (simp add: store_member_def)
next
  case (Some f)
  assume "string_encoded pf m"
  then have "if float_field f then number_string pf (snd m) else integer_number (snd m)"
    by (simp add: string_encoded_def Some)
  then show ?thesis
    by (cases f) (simp_all add: store_member_def Some float_field_def store_int_ok store_float_ok)
qed

lemma members_ok:
  "\<forall>m \<in> set ms. string_encoded pf m \<Longrightarrow> snd (foldl (store_member pf) st ms) = snd st"
  by (induction ms arbitrary: st) (simp_all add: store_member_ok)

lemma decode_elements_ok:
  "\<forall>ms \<in> set objs. \<forall>m \<in> set ms. string_encoded pf m \<Longrightarrow>
     snd (decode_elements pf saved (map JObject objs)) = saved"
  by (induction objs arbitrary: saved) (simp_all add: Let_def decode_element_def members_ok)

lemma store_member_unquoted:
  "field_of_key k = Some f \<Longrightarrow> float_field f \<Longrightarrow>
     snd (store_member pf st (k, JNumber s)) \<noteq> None"
  by (cases f)
     (simp_all del: not_None_eq
        add: store_member_def float_field_def store_float_def decode_quoted_float_def saveError_keeps)

lemma members_unquoted:
  assumes "(k, JNumber s) \<in> set ms" "field_of_key k = Some f" "float_field f"
  shows "snd (foldl (store_member pf) st ms) \<noteq> None"
proof -
  from assms(1) obtain pre post where ms: "ms = pre @ (k, JNumber s) # post"
    by (auto simp: in_set_conv_decomp)
  have "snd (store_member pf (foldl (store_member pf) st pre) (k, JNumber s)) \<noteq> None"
    using assms(2,3) by (rule store_member_unquoted)
  then show ?thesis by (simp del: not_None_eq add: ms members_sticky)
qed

lemma decode_elements_unquoted:
  assumes "ms \<in> set objs" "(k, JNumber s) \<in> set ms" "field_of_key k = Some f" "float_field f"
  shows "snd (decode_elements pf saved (map JObject objs)) \<noteq> None"
proof -
  from assms(1) obtain pre post where objs: "objs = pre @ ms # post"
    by (auto simp: in_set_conv_decomp)
  have app: "snd (decode_elements pf sv (xs @ ys)) =
      snd (decode_elements pf (snd (decode_elements pf sv xs)) ys)" for sv xs ys
    by (induction xs arbitrary: sv) (simp_all add: Let_def)
  have "snd (decode_element pf sv (JObject ms)) \<noteq> None" for sv
    using members_unquoted [OF assms(2,3,4)] by (simp del: not_None_eq add: decode_element_def)
  then show ?thesis
    by (simp del: not_None_eq add: objs app Let_def decode_elements_sticky)
qed

text \<open>
  For a payload encoded as the API encodes it, the decoder computes the candle that
  \<open>parsed_candle\<close> describes, object by object.
\<close>

lemma last_value_Nil [simp]: "last_value keys [] = None"
  by (simp add: last_value_def)

lemma last_value_snoc:
  "last_value keys (ms @ [m]) = (if fst m \<in> set keys then Some (snd m) else last_value keys ms)"
  by (simp add: last_value_def Let_def)

lemma decoded_from_Nil: "decoded_from pf rc [] = rc"
  by (cases rc) (simp add: decoded_from_def int_value_def float_value_def)

lemma field_of_key_cases:
  "field_of_key k = None \<Longrightarrow>
     k \<notin> set [''t'', ''T''] \<and> k \<notin> set [''o'', ''O''] \<and> k \<notin> set [''h'', ''H''] \<and>
     k \<notin> set [''l'', ''L''] \<and> k \<notin> set [''c'', ''C''] \<and> k \<notin> set [''v'', ''V''] \<and>
     k \<notin> set [''n'', ''N'']"
  "field_of_key k = Some FT \<Longrightarrow>
     k \<in> set [''t'', ''T''] \<and> k \<notin> set [''o'', ''O''] \<and> k \<notin> set [''h'', ''H''] \<and>
     k \<notin> set [''l'', ''L''] \<and> k \<notin> set [''c'', ''C''] \<and> k \<notin> set [''v'', ''V''] \<and>
     k \<notin> set [''n'', ''N'']"
  "field_of_key k = Some FO \<Longrightarrow>
     k \<notin> set [''t'', ''T''] \<and> k \<in> set [''o'', ''O''] \<and> k \<notin> set [''h'', ''H''] \<and>
     k \<notin> set [''l'', ''L''] \<and> k \<notin> set [''c'', ''C''] \<and> k \<notin> set [''v'', ''V''] \<and>
     k \<notin> set [''n'', ''N'']"
  "field_of_key k = Some FH \<Longrightarrow>
     k \<notin> set [''t'', ''T''] \<and> k \<notin> set [''o'', ''O''] \<and> k \<in> set [''h'', ''H''] \<and>
     k \<notin> set [''l'', ''L''] \<and> k \<notin> set [''c'', ''C''] \<and> k \<notin> set [''v'', ''V''] \<and>
     k \<notin> set [''n'', ''N'']"
  "field_of_key k = Some FL \<Longrightarrow>
     k \<notin> set [''t'', ''T''] \<and> k \<notin> set [''o'', ''O''] \<and> k \<notin> set [''h'', ''H''] \<and>
     k \<in> set [''l'', ''L''] \<and> k \<notin> set [''c'', ''C''] \<and> k \<notin> set [''v'', ''V''] \<and>
     k \<notin> set [''n'', ''N'']"
  "field_of_key k = Some FC \<Longrightarrow>
     k \<notin> set [''t'', ''T''] \<and> k \<notin> set [''o'', ''O''] \<and> k \<notin> set [''h'', ''H''] \<and>
     k \<notin> set [''l'', ''L''] \<and> k \<in> set [''c'', ''C''] \<and> k \<notin> set [''v'', ''V''] \<and>
     k \<notin> set [''n'', ''N'']"
  "field_of_key k = Some FV \<Longrightarrow>
     k \<notin> set [''t'', ''T''] \<and> k \<notin> set [''o'', ''O''] \<and> k \<notin> set [''h'', ''H''] \<and>
     k \<notin> set [''l'', ''L''] \<and> k \<notin> set [''c'', ''C''] \<and> k \<in> set [''v'', ''V''] \<and>
     k \<notin> set [''n'', ''N'']"
  "field_of_key k = Some FN \<Longrightarrow>
     k \<notin> set [''t'', ''T''] \<and> k \<notin> set [''o'', ''O''] \<and> k \<notin> set [''h'', ''H''] \<and>
     k \<notin> set [''l'', ''L''] \<and> k \<notin> set [''c'', ''C''] \<and> k \<notin> set [''v'', ''V''] \<and>
     k \<in> set [''n'', ''N'']"
  by (auto simp: field_of_key_def split: if_splits)


lemma store_member_step:
  assumes "string_encoded pf m"
  shows "store_member pf (decoded_from pf rc ms, None) m = (decoded_from pf rc (ms @ [m]), None)"
proof (cases "field_of_key (fst m)")
  case None
  show ?thesis
    using field_of_key_cases(1) [OF None]
    by (simp add: store_member_def None decoded_from_def last_value_snoc)
next
  case (Some f)
  have enc: "if float_field f then number_string pf (snd m) else integer_number (snd m)"
    using assms by (simp add: string_encoded_def Some)
  have fl: "\<exists>s x. snd m = JString s \<and> pf s = Some x \<and>
      decode_quoted_float pf (snd m) = Inr (Some x)" if "float_field f"
    using enc that
    by (cases "snd m")
       (auto simp: number_string_def decode_quoted_float_def is_digit_def split: list.splits)
  have it: "\<exists>s n. snd m = JNumber s \<and> ParseInt s = Some n \<and>
      decode_int (snd m) = Inr (Some n)" if "\<not> float_field f"
    using enc that by (cases "snd m") (auto simp: integer_number_def decode_int_def)
  show ?thesis
  proof (cases f)
    case FT
    from it obtain s n where v: "snd m = JNumber s" "ParseInt s = Some n"
      "decode_int (snd m) = Inr (Some n)" by (auto simp: FT float_field_def)
    show ?thesis
      using field_of_key_cases(2) [OF Some [unfolded FT]] v
      by (simp add: store_member_def Some FT store_int_def decoded_from_def last_value_snoc
          int_value_def)
  next
    case FO
    from fl obtain s x where v: "snd m = JString s" "pf s = Some x"
      "decode_quoted_float pf (snd m) = Inr (Some x)" by (auto simp: FO float_field_def)
    show ?thesis
      using field_of_key_cases(3) [OF Some [unfolded FO]] v
      by (simp add: store_member_def Some FO store_float_def decoded_from_def last_value_snoc
          float_value_def)
  next
    case FH
    from fl obtain s x where v: "snd m = JString s" "pf s = Some x"
      "decode_quoted_float pf (snd m) = Inr (Some x)" by (auto simp: FH float_field_def)
    show ?thesis
      using field_of_key_cases(4) [OF Some [unfolded FH]] v
      by (simp add: store_member_def Some FH store_float_def decoded_from_def last_value_snoc
          float_value_def)
  next
    case FL
    from fl obtain s x where v: "snd m = JString s" "pf s = Some x"
      "decode_quoted_float pf (snd m) = Inr (Some x)" by (auto simp: FL float_field_def)
    show ?thesis
      using field_of_key_cases(5) [OF Some [unfolded FL]] v
      by (simp add: store_member_def Some FL store_float_def decoded_from_def last_value_snoc
          float_value_def)
  next
    case FC
    from fl obtain s x where v: "snd m = JString s" "pf s = Some x"
      "decode_quoted_float pf (snd m) = Inr (Some x)" by (auto simp: FC float_field_def)
    show ?thesis
      using field_of_key_cases(6) [OF Some [unfolded FC]] v
      by (simp add: store_member_def Some FC store_float_def decoded_from_def last_value_snoc
          float_value_def)
  next
    case FV
    from fl obtain s x where v: "snd m = JString s" "pf s = Some x"
      "decode_quoted_float pf (snd m) = Inr (Some x)" by (auto simp: FV float_field_def)
    show ?thesis
      using field_of_key_cases(7) [OF Some [unfolded FV]] v
      by (simp add: store_member_def Some FV store_float_def decoded_from_def last_value_snoc
          float_value_def)
  next
    case FN
    from it obtain s n where v: "snd m = JNumber s" "ParseInt s = Some n"
      "decode_int (snd m) = Inr (Some n)" by (auto simp: FN float_field_def)
    show ?thesis
      using field_of_key_cases(8) [OF Some [unfolded FN]] v
      by (simp add: store_member_def Some FN store_int_def decoded_from_def last_value_snoc
          int_value_def)
  qed
qed

lemma members_decoded:
  "\<forall>m \<in> set ms. string_encoded pf m \<Longrightarrow>
     foldl (store_member pf) (rc, None) ms = (decoded_from pf rc ms, None)"
proof (induction ms rule: rev_induct)
  case Nil
  show ?case by (simp add: decoded_from_Nil)
next
  case (snoc m ms)
  then show ?case by (simp add: store_member_step)
qed

lemma decode_elements_decoded:
  "\<forall>ms \<in> set objs. \<forall>m \<in> set ms. string_encoded pf m \<Longrightarrow>
     decode_elements pf None (map JObject objs) = (map (decoded_from pf zero_candle) objs, None)"
  by (induction objs) (simp_all add: Let_def decode_element_def members_decoded)

lemma to_candle_decoded: "to_candle (decoded_from pf zero_candle ms) = parsed_candle pf ms"
  by (simp add: to_candle_def decoded_from_def parsed_candle_def zero_candle_def)

lemma string_encoded_result:
  assumes "\<forall>ms \<in> set objs. \<forall>m \<in> set ms. string_encoded pf m"
  shows "FetchCandles pf (Delivered (JArray (map JObject objs))) = Inr (map (parsed_candle pf) objs)"
  using decode_elements_decoded [OF assms]
  by (simp add: FetchCandles_def Unmarshal_candles_def to_candle_decoded comp_def)

text \<open>
  Claim C5, as amended. A payload that is an array of candle objects whose price and
  volume members are JSON strings holding numbers, and whose timestamp and trade-count
  members are integer JSON numbers, is parsed: the client returns one candle per object,
  in order, and every field of a candle is the parsed value of the last member of its
  object that names the field, or zero when no member does. For an object with the seven
  members in the usual order these are the parsed values of the members. A price or
  volume member that is a bare JSON number makes the call fail with a parse error,
  whatever the float parser would have made of it.
\<close>

theorem string_encoded_candles_parse:
  "((\<forall>ms \<in> set objs. \<forall>m \<in> set ms. string_encoded parseFloat m) \<longrightarrow>
      FetchCandles parseFloat (Delivered (JArray (map JObject objs))) =
        Inr (map (parsed_candle parseFloat) objs)) \<and>
   (ParseInt st \<noteq> None \<and> ParseInt sn \<noteq> None \<and>
    number_string parseFloat (JString so) \<and> number_string parseFloat (JString sh) \<and>
    number_string parseFloat (JString sl) \<and> number_string parseFloat (JString sc) \<and>
    number_string parseFloat (JString sv) \<longrightarrow>
      FetchCandles parseFloat (Delivered (JArray [JObject
        [(''t'', JNumber st), (''o'', JString so), (''h'', JString sh), (''l'', JString sl),
         (''c'', JString sc), (''v'', JString sv), (''n'', JNumber sn)]])) =
      Inr [\<lparr>Timestamp = the (ParseInt st), Open = the (parseFloat so), High = the (parseFloat sh),
            Low = the (parseFloat sl), Close = the (parseFloat sc), Volume = the (parseFloat sv)\<rparr>]) \<and>
   (ms \<in> set objs \<and> (k, JNumber s) \<in> set ms \<and> field_of_key k = Some f \<and> float_field f \<longrightarrow>
      (\<exists>e. FetchCandles parseFloat (Delivered (JArray (map JObject objs))) = Inl (ParseFailed e)))"
proof (intro conjI impI)
  assume "\<forall>ms \<in> set objs. \<forall>m \<in> set ms. string_encoded parseFloat m"
  then show "FetchCandles parseFloat (Delivered (JArray (map JObject objs))) =
      Inr (map (parsed_candle parseFloat) objs)"
    by (rule string_encoded_result)
next
  assume h: "ParseInt st \<noteq> None \<and> ParseInt sn \<noteq> None \<and>
    number_string parseFloat (JString so) \<and> number_string parseFloat (JString sh) \<and>
    number_string parseFloat (JString sl) \<and> number_string parseFloat (JString sc) \<and>
    number_string parseFloat (JString sv)"
  have q: "decode_quoted_float parseFloat (JString x) = Inr (Some (the (parseFloat x)))"
    if "number_string parseFloat (JString x)" for x
    using that
    by (auto simp: number_string_def decode_quoted_float_def is_digit_def split: list.splits)
  from h obtain tv nv where p: "ParseInt st = Some tv" "ParseInt sn = Some nv" by auto
  have i: "decode_int (JNumber st) = Inr (Some tv)" "decode_int (JNumber sn) = Inr (Some nv)"
    by (simp_all add: decode_int_def p)
  have f: "decode_quoted_float parseFloat (JString so) = Inr (Some (the (parseFloat so)))"
    "decode_quoted_float parseFloat (JString sh) = Inr (Some (the (parseFloat sh)))"
    "decode_quoted_float parseFloat (JString sl) = Inr (Some (the (parseFloat sl)))"
    "decode_quoted_float parseFloat (JString sc) = Inr (Some (the (parseFloat sc)))"
    "decode_quoted_float parseFloat (JString sv) = Inr (Some (the (parseFloat sv)))"
    using h by (simp_all add: q)
  have "Unmarshal_candles parseFloat (JArray [JObject
        [(''t'', JNumber st), (''o'', JString so), (''h'', JString sh), (''l'', JString sl),
         (''c'', JString sc), (''v'', JString sv), (''n'', JNumber sn)]]) =
      ([\<lparr>rc_T = tv, rc_O = the (parseFloat so), rc_H = the (parseFloat sh),
         rc_L = the (parseFloat sl), rc_C = the (parseFloat sc), rc_V = the (parseFloat sv),
         rc_N = nv\<rparr>], None)"
    by (simp add: Unmarshal_candles_def decode_element_def store_member_def
        store_int_def store_float_def field_of_key_def i f zero_candle_def)
  then show "FetchCandles parseFloat (Delivered (JArray [JObject
        [(''t'', JNumber st), (''o'', JString so), (''h'', JString sh), (''l'', JString sl),
         (''c'', JString sc), (''v'', JString sv), (''n'', JNumber sn)]])) =
      Inr [\<lparr>Timestamp = the (ParseInt st), Open = the (parseFloat so), High = the (parseFloat sh),
            Low = the (parseFloat sl), Close = the (parseFloat sc), Volume = the (parseFloat sv)\<rparr>]"
    by (simp add: FetchCandles_def to_candle_def p)
next
  assume "ms \<in> set objs \<and> (k, JNumber s) \<in> set ms \<and> field_of_key k = Some f \<and> float_field f"
  then have "snd (decode_elements parseFloat None (map JObject objs)) \<noteq> None"
    by (intro decode_elements_unquoted [of ms objs k s f]) simp_all
  then show "\<exists>e. FetchCandles parseFloat (Delivered (JArray (map JObject objs))) = Inl (ParseFailed e)"
    by (auto simp: FetchCandles_def Unmarshal_candles_def)
qed

theorem string_encoded_candles_parse_witness:
  "number_string (\<lambda>s. if s = ''1.5'' then Some 0x3FF8000000000000
       else if s = ''2'' then Some 0x4000000000000000 else None) (JString ''1.5'') \<and>
   ParseInt ''1700000000000'' = Some 1700000000000 \<and>
   FetchCandles (\<lambda>s. if s = ''1.5'' then Some 0x3FF8000000000000
       else if s = ''2'' then Some 0x4000000000000000 else None)
     (Delivered (JArray
        [JObject
           [(''t'', JNumber ''1700000000000''), (''T'', JNumber ''1700003599999''),
            (''s'', JString ''BTC''), (''i'', JString ''1h''), (''o'', JString ''1.5''),
            (''c'', JString ''2''), (''h'', JString ''2''), (''l'', JString ''1.5''),
            (''v'', JString ''2''), (''n'', JNumber ''3'')],
         JObject [(''o'', JString ''2''), (''t'', JNumber ''7'')]])) =
     Inr [\<lparr>Timestamp = 1700003599999, Open = 0x3FF8000000000000, High = 0x4000000000000000,
           Low = 0x3FF8000000000000, Close = 0x4000000000000000, Volume = 0x4000000000000000\<rparr>,
          \<lparr>Timestamp = 7, Open = 0x4000000000000000, High = 0, Low = 0, Close = 0,
           Volume = 0\<rparr>] \<and>
   FetchCandles (\<lambda>s. if s = ''1.5'' then Some 0x3FF8000000000000
       else if s = ''2'' then Some 0x4000000000000000 else None)
     (Delivered (JArray [JObject
        [(''t'', JNumber ''1700000000000''), (''o'', JString ''1.5''), (''h'', JString ''2''),
         (''l'', JString ''1.5''), (''c'', JString ''2''), (''v'', JString ''2''),
         (''n'', JNumber ''3'')]])) =
     Inr [\<lparr>Timestamp = 1700000000000, Open = 0x3FF8000000000000, High = 0x4000000000000000,
           Low = 0x3FF8000000000000, Close = 0x4000000000000000, Volume = 0x4000000000000000\<rparr>] \<and>
   (\<exists>e. FetchCandles (\<lambda>s. if s = ''1.5'' then Some 0x3FF8000000000000
       else if s = ''2'' then Some 0x4000000000000000 else None)
     (Delivered (JArray [JObject [(''t'', JNumber ''1700000000000''), (''o'', JNumber ''1.5'')]])) =
     Inl (ParseFailed e))"
proof -
  let ?pf = "\<lambda>s. if s = ''1.5'' then Some (0x3FF8000000000000 :: float64)
       else if s = ''2'' then Some 0x4000000000000000 else None"
  let ?full = "[(''t'', JNumber ''1700000000000''), (''T'', JNumber ''1700003599999''),
            (''s'', JString ''BTC''), (''i'', JString ''1h''), (''o'', JString ''1.5''),
            (''c'', JString ''2''), (''h'', JString ''2''), (''l'', JString ''1.5''),
            (''v'', JString ''2''), (''n'', JNumber ''3'')]"
  let ?short = "[(''o'', JString ''2''), (''t'', JNumber ''7'')]"
  let ?bad = "[(''t'', JNumber ''1700000000000''), (''o'', JNumber ''1.5'')]"
  have enc: "\<forall>ms \<in> set [?full, ?short]. \<forall>m \<in> set ms. string_encoded ?pf m"
    by (simp add: string_encoded_def field_of_key_def float_field_def number_string_def
        integer_number_def ParseInt_def is_digit_def)
  have p: "parsed_candle ?pf ?full =
      \<lparr>Timestamp = 1700003599999, Open = 0x3FF8000000000000, High = 0x4000000000000000,
       Low = 0x3FF8000000000000, Close = 0x4000000000000000, Volume = 0x4000000000000000\<rparr>"
    "parsed_candle ?pf ?short =
      \<lparr>Timestamp = 7, Open = 0x4000000000000000, High = 0, Low = 0, Close = 0, Volume = 0\<rparr>"
    by (simp_all add: parsed_candle_def last_value_def int_value_def float_value_def
        ParseInt_def is_digit_def)
  have n: "number_string ?pf (JString ''1.5'')" "number_string ?pf (JString ''2'')"
    "ParseInt ''1700000000000'' = Some 1700000000000" "ParseInt ''3'' = Some 3"
    by (simp_all add: number_string_def ParseInt_def is_digit_def)
  have k: "field_of_key ''o'' = Some FO" "float_field FO"
    by (simp_all add: field_of_key_def float_field_def)
  show ?thesis
    using string_encoded_candles_parse [where parseFloat = ?pf and objs = "[?full, ?short]"
        and st = "''1700000000000''" and sn = "''3''" and so = "''1.5''" and sh = "''2''"
        and sl = "''1.5''" and sc = "''2''" and sv = "''2''"
        and ms = ?bad and k = "''o''" and s = "''1.5''" and f = FO]
      string_encoded_candles_parse [where parseFloat = ?pf and objs = "[?bad]"
        and st = "''1700000000000''" and sn = "''3''" and so = "''1.5''" and sh = "''2''"
        and sl = "''1.5''" and sc = "''2''" and sv = "''2''"
        and ms = ?bad and k = "''o''" and s = "''1.5''" and f = FO]
      enc p n k
    by simp
qed

text \<open>
  Claim C5 as stated fails for the number encoding: with the open price sent as the JSON
  number \<^verbatim>\<open>1.5\<close> and every other field as the API sends it, the call returns the error of
  the \<^verbatim>\<open>string\<close> option, even with a float parser that accepts every string.
\<close>

theorem number_encoded_field_rejected:
  "FetchCandles (\<lambda>s. Some 0)
     (Delivered (JArray [JObject
        [(''t'', JNumber ''1700000000000''), (''o'', JNumber ''1.5''), (''h'', JString ''2.5''),
         (''l'', JString ''1.0''), (''c'', JString ''2.0''), (''v'', JString ''10''),
         (''n'', JNumber ''3'')]])) =
     Inl (ParseFailed UnquotedValue)"
  by (simp add: FetchCandles_def Unmarshal_candles_def decode_element_def store_member_def
      store_int_def store_float_def decode_int_def decode_quoted_float_def field_of_key_def
      saveError_def ParseInt_def is_digit_def zero_candle_def)

section \<open>Shared storage: properties\<close>

lemma fold_copy:
  "fold (\<lambda>k res. res(k := m k)) keys acc = (\<lambda>k. if k \<in> set keys then m k else acc k)"
  by (induction keys arbitrary: acc) (auto simp: fun_eq_iff)

lemma map_at_maps: "maps st' = (maps st)(a \<mapsto> m) \<Longrightarrow>
    map_at st' b = (if b = a then m else map_at st b)"
  by (simp add: map_at_def)

lemma GetAll_ref_fresh: "fst (GetAll_ref keys st c) = fresh st"
  by (simp add: GetAll_ref_def Let_def)

lemma GetAll_ref_maps:
  "maps (snd (GetAll_ref keys st c)) =
     (maps st)(fresh st \<mapsto> (\<lambda>k. if k \<in> set keys then map_at st (data_at c) k else None))"
  by (simp add: GetAll_ref_def Let_def fold_copy)

lemma GetAll_ref_arrays: "arrays (snd (GetAll_ref keys st c)) = arrays st"
  by (simp add: GetAll_ref_def Let_def)

lemma GetAll_ref_copy:
  assumes "dom (map_at st (data_at c)) \<subseteq> set keys"
  shows "map_at (snd (GetAll_ref keys st c)) (fst (GetAll_ref keys st c)) = map_at st (data_at c)"
proof -
  have "map_at (snd (GetAll_ref keys st c)) (fresh st) =
      (\<lambda>k. if k \<in> set keys then map_at st (data_at c) k else None)"
    using map_at_maps [OF GetAll_ref_maps, of keys st c "fresh st"] by simp
  also have "\<dots> = map_at st (data_at c)"
  proof
    fix k
    show "(if k \<in> set keys then map_at st (data_at c) k else None) = map_at st (data_at c) k"
      using assms by (cases "map_at st (data_at c) k") auto
  qed
  finally show ?thesis by (simp only: GetAll_ref_fresh)
qed

lemma GetAll_ref_frame:
  "a \<noteq> fresh st \<Longrightarrow> map_at (snd (GetAll_ref keys st c)) a = map_at st a"
  using map_at_maps [OF GetAll_ref_maps, of keys st c a] by simp

lemma mutate_map_level:
  assumes "map_level m" "a \<noteq> r"
  shows "\<exists>st'. mutate r st m = Some st' \<and> map_at st' a = map_at st a \<and> arrays st' = arrays st"
proof (cases m)
  case (PutEntry k e)
  have "map_at (st\<lparr>maps := (maps st)(r \<mapsto> (map_at st r)(k \<mapsto> e))\<rparr>) a = map_at st a"
    using assms(2) by (subst map_at_maps [where st = st and a = r]) simp_all
  then show ?thesis by (simp add: PutEntry)
next
  case (DeleteEntry k)
  have "map_at (st\<lparr>maps := (maps st)(r \<mapsto> (map_at st r)(k := None))\<rparr>) a = map_at st a"
    using assms(2) by (subst map_at_maps [where st = st and a = r]) simp_all
  then show ?thesis by (simp add: DeleteEntry)
next
  case (PutBar k i x)
  then show ?thesis using assms(1) by simp
qed

lemma mutate_all_map_level:
  "\<forall>m \<in> set ms. map_level m \<Longrightarrow> a \<noteq> r \<Longrightarrow>
     \<exists>st'. mutate_all r st ms = Some st' \<and> map_at st' a = map_at st a \<and> arrays st' = arrays st"
proof (induction ms arbitrary: st)
  case Nil
  show ?case by simp
next
  case (Cons m ms)
  have "map_level m" using Cons.prems(1) by simp
  then obtain st1 where
    1: "mutate r st m = Some st1" "map_at st1 a = map_at st a" "arrays st1 = arrays st"
    using mutate_map_level [OF _ Cons.prems(2), of m st] by blast
  have "\<forall>m \<in> set ms. map_level m" using Cons.prems(1) by simp
  then obtain st2 where
    2: "mutate_all r st1 ms = Some st2" "map_at st2 a = map_at st1 a" "arrays st2 = arrays st1"
    using Cons.IH [OF _ Cons.prems(2), of st1] by blast
  have "mutate_all r st (m # ms) = Some st2" using 1(1) 2(1) by simp
  moreover have "map_at st2 a = map_at st a" using 1(2) 2(2) by simp
  moreover have "arrays st2 = arrays st" using 1(3) 2(3) by simp
  ultimately show ?case by blast
qed

lemma contents_cong: "arrays st' = arrays st \<Longrightarrow> contents st' sl = contents st sl"
  by (cases sl) (simp_all add: contents_def)

lemma view_cong:
  assumes "map_at st' (data_at c) = map_at st (data_at c)" "arrays st' = arrays st"
  shows "Get_ref st' c k = Get_ref st c k \<and> view st' (Get_ref st' c k) = view st (Get_ref st c k)"
proof -
  have g: "Get_ref st' c k = Get_ref st c k" by (simp add: Get_ref_def assms(1))
  have "view st' (Get_ref st c k) = view st (Get_ref st c k)"
    by (simp add: view_def contents_cong [OF assms(2)])
  with g show ?thesis by simp
qed

text \<open>
  Claim C6, as amended. \<^verbatim>\<open>GetAll\<close> returns a new map object, different from the cache's
  own, holding the cache's entries as they are at that time (when the runtime's key order
  covers all keys). Whatever entries the caller then assigns to or deletes from the
  returned map, none of it panics and a later \<^verbatim>\<open>Get\<close> on the cache returns the same entry
  with the same bars as before, for every key.
\<close>

theorem GetAll_copies_the_map:
  "data_at c < fresh st \<Longrightarrow> \<forall>m \<in> set ms. map_level m \<Longrightarrow>
     (dom (map_at st (data_at c)) \<subseteq> set keys \<longrightarrow>
        map_at (snd (GetAll_ref keys st c)) (fst (GetAll_ref keys st c)) = map_at st (data_at c)) \<and>
     fst (GetAll_ref keys st c) \<noteq> data_at c \<and>
     (\<exists>st'. mutate_all (fst (GetAll_ref keys st c)) (snd (GetAll_ref keys st c)) ms = Some st' \<and>
        (\<forall>k. Get_ref st' c k = Get_ref st c k \<and>
             view st' (Get_ref st' c k) = view st (Get_ref st c k)))"
proof -
  assume wf: "data_at c < fresh st" and lvl: "\<forall>m \<in> set ms. map_level m"
  let ?r = "fst (GetAll_ref keys st c)" and ?st1 = "snd (GetAll_ref keys st c)"
  have ne: "data_at c \<noteq> ?r" using wf by (simp add: GetAll_ref_fresh)
  have ne': "data_at c \<noteq> fresh st" using wf by simp
  have copy: "dom (map_at st (data_at c)) \<subseteq> set keys \<longrightarrow> map_at ?st1 ?r = map_at st (data_at c)"
    using GetAll_ref_copy [of st c keys] by blast
  obtain st' where
    m: "mutate_all ?r ?st1 ms = Some st'" "map_at st' (data_at c) = map_at ?st1 (data_at c)"
      "arrays st' = arrays ?st1"
    using mutate_all_map_level [OF lvl ne, of ?st1] by blast
  have a: "map_at st' (data_at c) = map_at st (data_at c)"
    unfolding m(2) using ne' by (rule GetAll_ref_frame)
  have b: "arrays st' = arrays st"
    unfolding m(3) by (rule GetAll_ref_arrays)
  have "\<forall>k. Get_ref st' c k = Get_ref st c k \<and>
      view st' (Get_ref st' c k) = view st (Get_ref st c k)"
    using view_cong [OF a b] by blast
  with m(1) have ex: "\<exists>st'. mutate_all ?r ?st1 ms = Some st' \<and>
      (\<forall>k. Get_ref st' c k = Get_ref st c k \<and>
           view st' (Get_ref st' c k) = view st (Get_ref st c k))"
    by blast
  from copy ne [symmetric] ex show ?thesis by (intro conjI)
qed


text \<open>
  \<^verbatim>\<open>Get\<close> and \<^verbatim>\<open>Set\<close> on the store agree with \<open>Get\<close> and \<open>Set\<close> on the cache of contents,
  and the map that \<open>GetAll\<close> builds there is the cache's data whenever the key order
  covers the keys.
\<close>

lemma GetAll_data:
  assumes "dom (data c) \<subseteq> set keys"
  shows "GetAll keys c = data c"
proof
  fix k
  show "GetAll keys c k = data c k"
    using assms by (cases "data c k") (auto simp: GetAll_def fold_copy)
qed

lemma Get_abs:
  "Get (w\<lparr>data := abs_data st c\<rparr>) k = view st (Get_ref st c k)"
  by (cases "map_at st (data_at c) k")
     (simp_all add: Get_def Get_ref_def abs_data_def view_def abs_entry_def zero_entry_def
        zero_entry_ref_def contents_def)

lemma Set_abs:
  "abs_data (Set_ref st c k sl t) c =
     (abs_data st c)(k \<mapsto> \<lparr>Symbol = k, Candles = contents st sl, LastUpdate = t\<rparr>)"
proof -
  have m: "map_at (Set_ref st c k sl t) (data_at c) =
      (map_at st (data_at c))(k \<mapsto> \<lparr>eSymbol = k, eCandles = sl, eLastUpdate = t\<rparr>)"
    by (simp add: Set_ref_def map_at_def)
  have "arrays (Set_ref st c k sl t) = arrays st" by (simp add: Set_ref_def)
  then have c: "contents (Set_ref st c k sl t) x = contents st x" for x
    by (rule contents_cong)
  have e: "abs_entry (Set_ref st c k sl t) = abs_entry st"
    by (rule ext) (simp add: abs_entry_def c)
  show ?thesis
    by (rule ext) (simp add: abs_data_def m e, simp add: abs_entry_def)
qed

lemma btc_cache_eval:
  "data_at (fst btc_cache) = 0"
  "fresh (snd btc_cache) = 2"
  "maps (snd btc_cache) = [0 \<mapsto> [''BTC'' \<mapsto> \<lparr>eSymbol = ''BTC'', eCandles = SliceRef 1 1, eLastUpdate = 5\<rparr>]]"
  "arrays (snd btc_cache) = [1 \<mapsto> [\<lparr>Timestamp = 1, Open = 2, High = 3, Low = 1, Close = 2, Volume = 9\<rparr>]]"
  by (simp_all add: btc_cache_def NewCache_ref_def new_store_def make_slice_def Set_ref_def
      map_at_def Let_def)

theorem GetAll_copies_the_map_witness:
  "data_at (fst btc_cache) < fresh (snd btc_cache) \<and>
   map_option (\<lambda>st'. view st' (Get_ref st' (fst btc_cache) ''BTC''))
     (mutate_all (fst (GetAll_ref [''BTC''] (snd btc_cache) (fst btc_cache)))
        (snd (GetAll_ref [''BTC''] (snd btc_cache) (fst btc_cache)))
        [DeleteEntry ''BTC'', PutEntry ''ETH'' zero_entry_ref]) =
     Some (\<lparr>Symbol = ''BTC'',
            Candles = [\<lparr>Timestamp = 1, Open = 2, High = 3, Low = 1, Close = 2, Volume = 9\<rparr>],
            LastUpdate = 5\<rparr>, True)"
proof -
  have v: "view (snd btc_cache) (Get_ref (snd btc_cache) (fst btc_cache) ''BTC'') =
      (\<lparr>Symbol = ''BTC'',
        Candles = [\<lparr>Timestamp = 1, Open = 2, High = 3, Low = 1, Close = 2, Volume = 9\<rparr>],
        LastUpdate = 5\<rparr>, True)"
    by (simp add: view_def Get_ref_def map_at_def contents_def btc_cache_eval)
  have wf: "data_at (fst btc_cache) < fresh (snd btc_cache)" by (simp add: btc_cache_eval)
  have lvl: "\<forall>m \<in> set [DeleteEntry ''BTC'', PutEntry ''ETH'' zero_entry_ref]. map_level m"
    by simp
  from GetAll_copies_the_map [OF wf lvl, of "[''BTC'']"] obtain st' where
    m: "mutate_all (fst (GetAll_ref [''BTC''] (snd btc_cache) (fst btc_cache)))
        (snd (GetAll_ref [''BTC''] (snd btc_cache) (fst btc_cache)))
        [DeleteEntry ''BTC'', PutEntry ''ETH'' zero_entry_ref] = Some st'"
    and s: "view st' (Get_ref st' (fst btc_cache) ''BTC'') =
        view (snd btc_cache) (Get_ref (snd btc_cache) (fst btc_cache) ''BTC'')"
    by blast
  show ?thesis
    unfolding m using wf s v by simp
qed

text \<open>
  Claim C6 as stated fails for the contents of the entries: the entries of the returned
  map carry the same slice headers as the cache's entries, so writing a bar through
  \<^verbatim>\<open>all["BTC"].Candles[0]\<close> changes the bars that a later \<^verbatim>\<open>Get("BTC")\<close> shows.
\<close>

theorem returned_bars_are_shared:
  "view (snd btc_cache) (Get_ref (snd btc_cache) (fst btc_cache) ''BTC'') =
     (\<lparr>Symbol = ''BTC'',
       Candles = [\<lparr>Timestamp = 1, Open = 2, High = 3, Low = 1, Close = 2, Volume = 9\<rparr>],
       LastUpdate = 5\<rparr>, True) \<and>
   map_option (\<lambda>st'. view st' (Get_ref st' (fst btc_cache) ''BTC''))
     (mutate (fst (GetAll_ref [''BTC''] (snd btc_cache) (fst btc_cache)))
        (snd (GetAll_ref [''BTC''] (snd btc_cache) (fst btc_cache)))
        (PutBar ''BTC'' 0 \<lparr>Timestamp = 0, Open = 0, High = 0, Low = 0, Close = 0, Volume = 0\<rparr>)) =
     Some (\<lparr>Symbol = ''BTC'',
            Candles = [\<lparr>Timestamp = 0, Open = 0, High = 0, Low = 0, Close = 0, Volume = 0\<rparr>],
            LastUpdate = 5\<rparr>, True)"
  by (simp add: view_def Get_ref_def GetAll_ref_def map_at_def contents_def btc_cache_eval Let_def)

end
